theory Spec2Isabelle
  imports Main "HOL-Library.AList"
begin

section \<open>Embedding of assignment2.py\<close>

text \<open>
  The program downloads a CSV text, parses it with \<^verbatim>\<open>processData\<close> into a dictionary
  from identifier to (name, birthday), and answers interactive lookups in \<^verbatim>\<open>main\<close>.

  Conventions of the embedding.
  \<^item> A Python \<^verbatim>\<open>str\<close> is a \<^typ>\<open>string\<close>; one \<^typ>\<open>char\<close> stands for one code point
    below 256, so the model covers texts of such code points.
  \<^item> An exception is a value of \<open>pyerror\<close>; a function that may raise returns
    \<open>pyerror + 'a\<close>. A \<^verbatim>\<open>ValueError\<close> of \<^verbatim>\<open>int\<close> or \<^verbatim>\<open>strptime\<close>, which the program
    always catches at once, is the value \<open>None\<close>.
  \<^item> The effects are passed explicitly in a \<open>world\<close>: what was written to standard
    output and the messages handed to \<^verbatim>\<open>logging.error\<close>. The time stamp and level that
    the log format puts before each message are left out.
  \<^item> A dictionary is an association list in insertion order, updated with
    \<^const>\<open>AList.update\<close> (the value is replaced in place, a new key goes to the end) and read
    with \<^const>\<open>map_of\<close>.
  \<^item> The library functions \<^verbatim>\<open>str.splitlines\<close>, \<^verbatim>\<open>csv.reader\<close>, \<^verbatim>\<open>int\<close>, \<^verbatim>\<open>str\<close>,
    \<^verbatim>\<open>datetime.strptime\<close> and \<^verbatim>\<open>strftime\<close> are modelled after CPython 3.11 on
    the GNU C library.
\<close>

subsection \<open>Exceptions and effects\<close>

datatype pyerror =
    StopIteration
  | IndexError
  | CsvError string
  | EOFError
  | DownloadFailure string string

fun exc_class :: "pyerror \<Rightarrow> string" where
  "exc_class StopIteration = ''StopIteration''"
| "exc_class IndexError = ''IndexError''"
| "exc_class (CsvError m) = ''_csv.Error''"
| "exc_class EOFError = ''EOFError''"
| "exc_class (DownloadFailure c m) = c"

text \<open>\<^verbatim>\<open>str(e)\<close>, as \<^verbatim>\<open>main\<close> prints it.\<close>

fun exc_str :: "pyerror \<Rightarrow> string" where
  "exc_str StopIteration = ''''"
| "exc_str IndexError = ''list index out of range''"
| "exc_str (CsvError m) = m"
| "exc_str EOFError = ''EOF when reading a line''"
| "exc_str (DownloadFailure c m) = m"

datatype out = Line string | Prompt string

record world =
  stdout :: "out list"
  errlog :: "string list"

definition print :: "string \<Rightarrow> world \<Rightarrow> world" where
  "print s w = w\<lparr>stdout := stdout w @ [Line s]\<rparr>"

definition logging_error :: "string \<Rightarrow> world \<Rightarrow> world" where
  "logging_error msg w = w\<lparr>errlog := errlog w @ [msg]\<rparr>"

subsection \<open>Integers and their decimal text\<close>

definition is_digit :: "char \<Rightarrow> bool" where
  "is_digit c = (c \<in> set ''0123456789'')"

definition digit_val :: "char \<Rightarrow> nat" where
  "digit_val c = of_char c - 48"

definition digit_char :: "nat \<Rightarrow> char" where
  "digit_char d = ''0123456789'' ! d"

definition nat_of_digits :: "string \<Rightarrow> nat" where
  "nat_of_digits ds = foldl (\<lambda>n c. 10 * n + digit_val c) 0 ds"

text \<open>
  White space for \<^verbatim>\<open>int\<close>: tab, line feed, vertical tab, form feed, carriage return and
  space, and the two other white-space code points below 256 (next line, no-break space),
  which CPython turns into a space before it parses the number.
\<close>

definition is_int_space :: "char \<Rightarrow> bool" where
  "is_int_space c =
     (c \<in> {CHR 0x09, CHR 0x0A, CHR 0x0B, CHR 0x0C, CHR 0x0D, CHR 0x20, CHR 0x85, CHR 0xA0})"

fun has_double_underscore :: "string \<Rightarrow> bool" where
  "has_double_underscore (a # b # r) =
     ((a = CHR ''_'' \<and> b = CHR ''_'') \<or> has_double_underscore (b # r))"
| "has_double_underscore _ = False"

definition int_max_str_digits :: nat where
  "int_max_str_digits = 4300"

text \<open>
  \<^verbatim>\<open>int(s)\<close> in base 10: white space, an optional sign, digits that single underscores
  may separate, white space. \<open>None\<close> is the \<^verbatim>\<open>ValueError\<close>.
\<close>

definition py_int :: "string \<Rightarrow> int option" where
  "py_int s =
     (let s1 = dropWhile is_int_space s;
          neg = (s1 \<noteq> [] \<and> hd s1 = CHR ''-'');
          s2 = (if s1 \<noteq> [] \<and> (hd s1 = CHR ''+'' \<or> hd s1 = CHR ''-'') then tl s1 else s1);
          body = takeWhile (\<lambda>c. is_digit c \<or> c = CHR ''_'') s2;
          rest = dropWhile (\<lambda>c. is_digit c \<or> c = CHR ''_'') s2;
          ds = filter is_digit body
      in if body = [] \<or> hd body = CHR ''_'' \<or> last body = CHR ''_''
            \<or> has_double_underscore body
            \<or> dropWhile is_int_space rest \<noteq> []
            \<or> length ds > int_max_str_digits
         then None
         else Some (if neg then - int (nat_of_digits ds) else int (nat_of_digits ds)))"

fun str_nat :: "nat \<Rightarrow> string" where
  "str_nat n = (if n < 10 then [digit_char n] else str_nat (n div 10) @ [digit_char (n mod 10)])"

declare str_nat.simps [simp del]

text \<open>\<^verbatim>\<open>str(i)\<close> of an integer.\<close>

definition py_str :: "int \<Rightarrow> string" where
  "py_str i = (if i < 0 then CHR ''-'' # str_nat (nat (- i)) else str_nat (nat i))"

subsection \<open>Dates: \<^verbatim>\<open>datetime.strptime(s, '%d/%m/%Y')\<close> and \<^verbatim>\<open>strftime('%Y-%m-%d')\<close>\<close>

text \<open>The \<^verbatim>\<open>datetime\<close> that \<^verbatim>\<open>strptime\<close> returns for this format has time 00:00:00.\<close>

record datetime =
  year :: nat
  month :: nat
  day :: nat

text \<open>
  \<^verbatim>\<open>strptime\<close> turns the format into a regular expression and matches it at the start of
  the text, trying alternatives in order. A matcher returns every way it can match a prefix,
  in the order a backtracking matcher tries them, each with the matched text and the rest.
\<close>

type_synonym re = "string \<Rightarrow> (string \<times> string) list"

definition re_set :: "string \<Rightarrow> re" where
  "re_set cs s = (case s of [] \<Rightarrow> [] | c # r \<Rightarrow> if c \<in> set cs then [([c], r)] else [])"

definition re_seq :: "re \<Rightarrow> re \<Rightarrow> re" where
  "re_seq p q s = concat (map (\<lambda>(a, r1). map (\<lambda>(b, r2). (a @ b, r2)) (q r1)) (p s))"

definition re_alt :: "re list \<Rightarrow> re" where
  "re_alt ps s = concat (map (\<lambda>p. p s) ps)"

definition re_digit :: re where
  "re_digit = re_set ''0123456789''"

text \<open>\<^verbatim>\<open>%d\<close> is \<^verbatim>\<open>3[0-1]|[1-2]\d|0[1-9]|[1-9]| [1-9]\<close>.\<close>

definition re_d :: re where
  "re_d = re_alt
     [re_seq (re_set ''3'') (re_set ''01''),
      re_seq (re_set ''12'') re_digit,
      re_seq (re_set ''0'') (re_set ''123456789''),
      re_set ''123456789'',
      re_seq (re_set '' '') (re_set ''123456789'')]"

text \<open>\<^verbatim>\<open>%m\<close> is \<^verbatim>\<open>1[0-2]|0[1-9]|[1-9]\<close>.\<close>

definition re_m :: re where
  "re_m = re_alt
     [re_seq (re_set ''1'') (re_set ''012''),
      re_seq (re_set ''0'') (re_set ''123456789''),
      re_set ''123456789'']"

text \<open>\<^verbatim>\<open>%Y\<close> is \<^verbatim>\<open>\d\d\d\d\<close>.\<close>

definition re_Y :: re where
  "re_Y = re_seq re_digit (re_seq re_digit (re_seq re_digit re_digit))"

text \<open>The whole format: the groups d, m, Y of each match and the unconverted rest.\<close>

definition re_dmY :: "string \<Rightarrow> ((string \<times> string \<times> string) \<times> string) list" where
  "re_dmY s =
     concat (map (\<lambda>(d, r1).
       concat (map (\<lambda>(_, r2).
         concat (map (\<lambda>(m, r3).
           concat (map (\<lambda>(_, r4).
             map (\<lambda>(y, r5). ((d, m, y), r5)) (re_Y r4))
           (re_set ''/'' r3)))
         (re_m r2)))
       (re_set ''/'' r1)))
     (re_d s))"

definition is_leap :: "nat \<Rightarrow> bool" where
  "is_leap y = (y mod 4 = 0 \<and> (y mod 100 \<noteq> 0 \<or> y mod 400 = 0))"

definition days_in_month :: "nat \<Rightarrow> nat \<Rightarrow> nat" where
  "days_in_month y m =
     (if m = 2 then (if is_leap y then 29 else 28)
      else if m \<in> {4, 6, 9, 11} then 30 else 31)"

text \<open>The constructor of a date checks its ranges; \<open>None\<close> is its \<^verbatim>\<open>ValueError\<close>.\<close>

definition make_date :: "nat \<Rightarrow> nat \<Rightarrow> nat \<Rightarrow> datetime option" where
  "make_date y m d =
     (if 1 \<le> y \<and> y \<le> 9999 \<and> 1 \<le> m \<and> m \<le> 12 \<and> 1 \<le> d \<and> d \<le> days_in_month y m
      then Some \<lparr>year = y, month = m, day = d\<rparr> else None)"

text \<open>
  \<^verbatim>\<open>datetime.strptime(s, '%d/%m/%Y')\<close>: the first match of the format; text left over after
  it, a group that is no number and a date out of range are each a \<^verbatim>\<open>ValueError\<close>.
\<close>

definition strptime_dmY :: "string \<Rightarrow> datetime option" where
  "strptime_dmY s =
     (case re_dmY s of
        [] \<Rightarrow> None
      | ((d, m, y), rest) # _ \<Rightarrow>
          if rest \<noteq> [] then None
          else (case (py_int y, py_int m, py_int d) of
                  (Some yi, Some mi, Some di) \<Rightarrow> make_date (nat yi) (nat mi) (nat di)
                | _ \<Rightarrow> None))"

definition pad2 :: "nat \<Rightarrow> string" where
  "pad2 n = [digit_char (n div 10 mod 10), digit_char (n mod 10)]"

text \<open>
  \<^verbatim>\<open>strftime('%Y-%m-%d')\<close> hands the format to the C library: the month and the day are
  written with two digits, the year as a decimal number without padding, so that a year
  below 1000 has fewer than four digits.
\<close>

definition strftime_Ymd :: "datetime \<Rightarrow> string" where
  "strftime_Ymd b = str_nat (year b) @ ''-'' @ pad2 (month b) @ ''-'' @ pad2 (day b)"

subsection \<open>\<^verbatim>\<open>str.splitlines\<close>\<close>

text \<open>
  The line boundaries below 256: line feed, vertical tab, form feed, carriage return, file,
  group and record separator, next line. A carriage return followed by a line feed is one
  boundary. The boundaries are not kept, and text that ends with one has no empty last line.
\<close>

definition is_linebreak :: "char \<Rightarrow> bool" where
  "is_linebreak c =
     (c \<in> {CHR 0x0A, CHR 0x0B, CHR 0x0C, CHR 0x0D, CHR 0x1C, CHR 0x1D, CHR 0x1E, CHR 0x85})"

fun splitlines_from :: "string \<Rightarrow> string \<Rightarrow> string list" where
  "splitlines_from cur [] = (if cur = [] then [] else [cur])"
| "splitlines_from cur (c # cs) =
     (if c = CHR 0x0D \<and> cs \<noteq> [] \<and> hd cs = CHR 0x0A then cur # splitlines_from [] (tl cs)
      else if is_linebreak c then cur # splitlines_from [] cs
      else splitlines_from (cur @ [c]) cs)"

definition splitlines :: "string \<Rightarrow> string list" where
  "splitlines s = splitlines_from [] s"

subsection \<open>\<^verbatim>\<open>csv.reader\<close> with the default dialect\<close>

text \<open>
  The reader of the \<^verbatim>\<open>excel\<close> dialect: delimiter comma, quote character (code 0x22)
  doubled inside a quoted field, no escape character, not strict. It is the state machine
  of the C module, without the states that only an escape character reaches. A record ends
  at the end of a line unless a quoted field is open, and then goes on with the next line.
\<close>

datatype parser_state =
    START_RECORD | START_FIELD | IN_FIELD | IN_QUOTED_FIELD | QUOTE_IN_QUOTED_FIELD | EAT_CRNL

record reader =
  rstate :: parser_state
  rfields :: "string list"
  rfield :: string

definition parse_reset :: reader where
  "parse_reset = \<lparr>rstate = START_RECORD, rfields = [], rfield = []\<rparr>"

definition field_limit :: nat where
  "field_limit = 131072"

definition parse_save_field :: "reader \<Rightarrow> reader" where
  "parse_save_field r = r\<lparr>rfields := rfields r @ [rfield r], rfield := []\<rparr>"

definition parse_add_char :: "char \<Rightarrow> reader \<Rightarrow> string + reader" where
  "parse_add_char c r =
     (if length (rfield r) \<ge> field_limit then Inl ''field larger than field limit (131072)''
      else Inr (r\<lparr>rfield := rfield r @ [c]\<rparr>))"

definition is_crnl :: "char \<Rightarrow> bool" where
  "is_crnl c = (c = CHR 0x0A \<or> c = CHR 0x0D)"

definition quotechar :: char where
  "quotechar = CHR 0x22"

definition delimiter :: char where
  "delimiter = CHR '',''"

text \<open>
  One character of a line; \<open>Inl\<close> is the message of a \<^verbatim>\<open>csv.Error\<close>. At the start of a
  record a character that ends no line is handled as at the start of a field.
\<close>

definition start_field :: "reader \<Rightarrow> char \<Rightarrow> string + reader" where
  "start_field r c =
     (if is_crnl c then Inr ((parse_save_field r)\<lparr>rstate := EAT_CRNL\<rparr>)
      else if c = quotechar then Inr (r\<lparr>rstate := IN_QUOTED_FIELD\<rparr>)
      else if c = delimiter then Inr ((parse_save_field r)\<lparr>rstate := START_FIELD\<rparr>)
      else map_sum id (\<lambda>r'. r'\<lparr>rstate := IN_FIELD\<rparr>) (parse_add_char c r))"

definition parse_process_char :: "reader \<Rightarrow> char \<Rightarrow> string + reader" where
  "parse_process_char r c =
     (case rstate r of
        START_RECORD \<Rightarrow>
          if is_crnl c then Inr (r\<lparr>rstate := EAT_CRNL\<rparr>)
          else start_field (r\<lparr>rstate := START_FIELD\<rparr>) c
      | START_FIELD \<Rightarrow> start_field r c
      | IN_FIELD \<Rightarrow>
          if is_crnl c then Inr ((parse_save_field r)\<lparr>rstate := EAT_CRNL\<rparr>)
          else if c = delimiter then Inr ((parse_save_field r)\<lparr>rstate := START_FIELD\<rparr>)
          else parse_add_char c r
      | IN_QUOTED_FIELD \<Rightarrow>
          if c = quotechar then Inr (r\<lparr>rstate := QUOTE_IN_QUOTED_FIELD\<rparr>)
          else parse_add_char c r
      | QUOTE_IN_QUOTED_FIELD \<Rightarrow>
          if c = quotechar
          then map_sum id (\<lambda>r'. r'\<lparr>rstate := IN_QUOTED_FIELD\<rparr>) (parse_add_char c r)
          else if c = delimiter then Inr ((parse_save_field r)\<lparr>rstate := START_FIELD\<rparr>)
          else if is_crnl c then Inr ((parse_save_field r)\<lparr>rstate := EAT_CRNL\<rparr>)
          else map_sum id (\<lambda>r'. r'\<lparr>rstate := IN_FIELD\<rparr>) (parse_add_char c r)
      | EAT_CRNL \<Rightarrow>
          if is_crnl c then Inr r
          else Inl (''new-line character seen in unquoted field''
                    @ '' - do you need to open the file in universal-newline mode?''))"

text \<open>The end of a line.\<close>

definition parse_process_eol :: "reader \<Rightarrow> reader" where
  "parse_process_eol r =
     (case rstate r of
        START_RECORD \<Rightarrow> r
      | START_FIELD \<Rightarrow> (parse_save_field r)\<lparr>rstate := START_RECORD\<rparr>
      | IN_FIELD \<Rightarrow> (parse_save_field r)\<lparr>rstate := START_RECORD\<rparr>
      | IN_QUOTED_FIELD \<Rightarrow> r
      | QUOTE_IN_QUOTED_FIELD \<Rightarrow> (parse_save_field r)\<lparr>rstate := START_RECORD\<rparr>
      | EAT_CRNL \<Rightarrow> r\<lparr>rstate := START_RECORD\<rparr>)"

fun parse_chars :: "reader \<Rightarrow> string \<Rightarrow> string + reader" where
  "parse_chars r [] = Inr r"
| "parse_chars r (c # cs) =
     (case parse_process_char r c of Inl e \<Rightarrow> Inl e | Inr r' \<Rightarrow> parse_chars r' cs)"

definition parse_line :: "reader \<Rightarrow> string \<Rightarrow> string + reader" where
  "parse_line r l = map_sum id parse_process_eol (parse_chars r l)"

text \<open>
  The reader is an iterator. \<open>reader_iter r ls\<close> is what it yields from the lines \<open>ls\<close>
  when its state is \<open>r\<close>: the rows, in order, and then either the end of the iteration
  (\<open>None\<close>) or a \<^verbatim>\<open>csv.Error\<close> with its message. When the lines end inside a quoted field,
  the open record is the last row.
\<close>

fun reader_iter :: "reader \<Rightarrow> string list \<Rightarrow> string list list \<times> string option" where
  "reader_iter r [] =
     (if rfield r \<noteq> [] \<or> rstate r = IN_QUOTED_FIELD then ([rfields (parse_save_field r)], None)
      else ([], None))"
| "reader_iter r (l # ls) =
     (case parse_line r l of
        Inl e \<Rightarrow> ([], Some e)
      | Inr r' \<Rightarrow>
          if rstate r' = START_RECORD
          then (case reader_iter parse_reset ls of (rows, e) \<Rightarrow> (rfields r' # rows, e))
          else reader_iter r' ls)"

definition csv_reader :: "string list \<Rightarrow> string list list \<times> string option" where
  "csv_reader ls = reader_iter parse_reset ls"

subsection \<open>\<^verbatim>\<open>processData\<close>\<close>

type_synonym table = "(string \<times> (string \<times> datetime)) list"

text \<open>\<^verbatim>\<open>row[i]\<close> with \<^verbatim>\<open>i\<close> not negative.\<close>

definition index :: "'a list \<Rightarrow> nat \<Rightarrow> pyerror + 'a" where
  "index xs i = (if i < length xs then Inr (xs ! i) else Inl IndexError)"

definition row_error_msg :: "nat \<Rightarrow> string \<Rightarrow> string \<Rightarrow> string" where
  "row_error_msg line_num ident bd =
     ''Error processing line #'' @ py_str (int line_num) @ '' for ID #'' @ ident @ '': '' @ bd"

text \<open>
  The \<^verbatim>\<open>for\<close> loop over the rows the reader still has to yield. \<open>line_num\<close> is the number
  of the next row, \<open>err\<close> is how the reader ends after the rows, and \<open>data_dict\<close> is the
  dictionary so far. An \<^verbatim>\<open>IndexError\<close> of \<^verbatim>\<open>row[0]\<close>, \<^verbatim>\<open>row[1]\<close> or \<^verbatim>\<open>row[2]\<close> leaves
  the loop: the \<^verbatim>\<open>except\<close> clause catches a \<^verbatim>\<open>ValueError\<close> only.
\<close>

fun process_rows ::
  "nat \<Rightarrow> string list list \<Rightarrow> string option \<Rightarrow> table \<Rightarrow> world \<Rightarrow> (pyerror + table) \<times> world"
where
  "process_rows line_num [] err data_dict w =
     (case err of None \<Rightarrow> (Inr data_dict, w) | Some m \<Rightarrow> (Inl (CsvError m), w))"
| "process_rows line_num (row # rows) err data_dict w =
     (case index row 0 of
        Inl e \<Rightarrow> (Inl e, w)
      | Inr ident \<Rightarrow>
         (case index row 1 of
            Inl e \<Rightarrow> (Inl e, w)
          | Inr name \<Rightarrow>
             (case index row 2 of
                Inl e \<Rightarrow> (Inl e, w)
              | Inr bd \<Rightarrow>
                 (case strptime_dmY bd of
                    None \<Rightarrow>
                      process_rows (line_num + 1) rows err data_dict
                        (logging_error (row_error_msg line_num ident bd) w)
                  | Some birthday \<Rightarrow>
                      process_rows (line_num + 1) rows err
                        (AList.update ident (name, birthday) data_dict) w))))"

text \<open>
  \<^verbatim>\<open>next(reader)\<close> takes the header and raises \<^verbatim>\<open>StopIteration\<close> when the reader yields
  nothing; the loop numbers the rows after it from 1.
\<close>

definition processData :: "string \<Rightarrow> world \<Rightarrow> (pyerror + table) \<times> world" where
  "processData csvData w =
     (case csv_reader (splitlines csvData) of
        ([], None) \<Rightarrow> (Inl StopIteration, w)
      | ([], Some m) \<Rightarrow> (Inl (CsvError m), w)
      | (header # rows, err) \<Rightarrow> process_rows 1 rows err [] w)"

subsection \<open>\<^verbatim>\<open>displayPerson\<close>\<close>

text \<open>A pair is true in Python, so \<^verbatim>\<open>if person\<close> tests that the key was found.\<close>

definition displayPerson :: "string \<Rightarrow> table \<Rightarrow> world \<Rightarrow> world" where
  "displayPerson pid personData w =
     (case map_of personData pid of
        Some (name, birthday) \<Rightarrow>
          print (''Person #'' @ pid @ '' is '' @ name @ '' with a birthday of ''
                 @ strftime_Ymd birthday @ ''.'') w
      | None \<Rightarrow> print (''No person found with ID #'' @ pid @ ''.'') w)"

subsection \<open>\<^verbatim>\<open>downloadData\<close> and \<^verbatim>\<open>main\<close>\<close>

text \<open>
  The network is outside the program: \<open>net\<close> is what the request and the decoding give,
  the text of the response or the class and the text of the exception, which
  \<^verbatim>\<open>downloadData\<close> logs and raises again.
\<close>

definition downloadData ::
  "string \<Rightarrow> (string \<times> string) + string \<Rightarrow> world \<Rightarrow> (pyerror + string) \<times> world"
where
  "downloadData url net w =
     (case net of
        Inr csvData \<Rightarrow> (Inr csvData, w)
      | Inl (c, e) \<Rightarrow>
          (Inl (DownloadFailure c e),
           logging_error (''Error downloading data from URL: '' @ url @ '' - '' @ e) w))"

datatype loop_state = Prompting | Terminated

definition prompt_text :: string where
  "prompt_text = ''Enter an ID to look up (or 0 to exit): ''"

text \<open>
  \<^verbatim>\<open>input(prompt)\<close> writes the prompt to standard output; the line it reads is taken
  from the list of input lines in \<open>main_loop\<close>.
\<close>

definition input :: "world \<Rightarrow> world" where
  "input w = w\<lparr>stdout := stdout w @ [Prompt prompt_text]\<rparr>"

text \<open>
  One turn of the \<^verbatim>\<open>while\<close> loop after \<^verbatim>\<open>input\<close> has returned the line \<open>user_input\<close>:
  \<^verbatim>\<open>break\<close> is the state \<open>Terminated\<close>.
\<close>

definition loop_step :: "table \<Rightarrow> string \<Rightarrow> world \<Rightarrow> loop_state \<times> world" where
  "loop_step personData user_input w =
     (case py_int user_input of
        None \<Rightarrow> (Prompting, print ''Please enter a valid integer ID.'' w)
      | Some user_id \<Rightarrow>
          if user_id \<le> 0 then (Terminated, print ''Exiting the program.'' w)
          else (Prompting, displayPerson (py_str user_id) personData w))"

text \<open>
  The loop on the lines that standard input still holds. \<^verbatim>\<open>input\<close> writes the prompt and
  reads a line; at the end of the input it raises \<^verbatim>\<open>EOFError\<close>, which nothing catches.
\<close>

fun main_loop :: "table \<Rightarrow> string list \<Rightarrow> world \<Rightarrow> (pyerror + unit) \<times> world" where
  "main_loop personData [] w = (Inl EOFError, input w)"
| "main_loop personData (user_input # inputs) w =
     (case loop_step personData user_input (input w) of
        (Terminated, w') \<Rightarrow> (Inr (), w')
      | (Prompting, w') \<Rightarrow> main_loop personData inputs w')"

text \<open>
  \<^verbatim>\<open>main\<close> catches every exception of the download and of the parser, prints it and
  returns; \<open>inputs\<close> are the lines that standard input holds.
\<close>

definition main ::
  "string \<Rightarrow> (string \<times> string) + string \<Rightarrow> string list \<Rightarrow> world \<Rightarrow> (pyerror + unit) \<times> world"
where
  "main url net inputs w =
     (let w0 = print (''Running main with URL = '' @ url @ ''...'') w in
      case downloadData url net w0 of
        (Inl e, w1) \<Rightarrow> (Inr (), print (''Failed to process data: '' @ exc_str e) w1)
      | (Inr csvData, w1) \<Rightarrow>
          (case processData csvData w1 of
             (Inl e, w2) \<Rightarrow> (Inr (), print (''Failed to process data: '' @ exc_str e) w2)
           | (Inr personData, w2) \<Rightarrow> main_loop personData inputs w2))"

subsection \<open>Notions used to state the properties\<close>

text \<open>A row with three fields or more is valid when its birthday parses.\<close>

definition valid_row :: "string list \<Rightarrow> bool" where
  "valid_row row = (strptime_dmY (row ! 2) \<noteq> None)"

text \<open>The dictionary entry of a valid row: identifier, name and parsed birthday.\<close>

definition row_entry :: "string list \<Rightarrow> string \<times> string \<times> datetime" where
  "row_entry row = (row ! 0, (row ! 1, the (strptime_dmY (row ! 2))))"

text \<open>A dictionary after the entries of some rows were stored in it, in order.\<close>

definition add_rows :: "table \<Rightarrow> string list list \<Rightarrow> table" where
  "add_rows d rows = fold (\<lambda>row. AList.update (fst (row_entry row)) (snd (row_entry row))) rows d"

text \<open>
  The log messages of the rows whose birthday does not parse, each with the number of
  its row, when the rows are numbered from \<open>n\<close>.
\<close>

definition row_log :: "nat \<Rightarrow> string list list \<Rightarrow> string list" where
  "row_log n rows =
     map (\<lambda>(line_num, row). row_error_msg line_num (row ! 0) (row ! 2))
       (filter (\<lambda>(line_num, row). \<not> valid_row row) (enumerate n rows))"

text \<open>
  The form YYYY-MM-DD, read back: four digits, a hyphen, two digits, a hyphen, two
  digits, and the three numbers they write.
\<close>

definition iso_Ymd :: "string \<Rightarrow> (nat \<times> nat \<times> nat) option" where
  "iso_Ymd s =
     (if length s = 10 \<and> s ! 4 = CHR ''-'' \<and> s ! 7 = CHR ''-''
         \<and> list_all is_digit (take 4 s) \<and> list_all is_digit (take 2 (drop 5 s))
         \<and> list_all is_digit (drop 8 s)
      then Some (nat_of_digits (take 4 s), nat_of_digits (take 2 (drop 5 s)),
                 nat_of_digits (drop 8 s))
      else None)"

text \<open>The four digits of a number below 10000.\<close>

definition pad4 :: "nat \<Rightarrow> string" where
  "pad4 n = [digit_char (n div 1000 mod 10), digit_char (n div 100 mod 10),
             digit_char (n div 10 mod 10), digit_char (n mod 10)]"

text \<open>The decimal text of a positive integer: digits only, the first of them not 0.\<close>

definition canonical_id :: "string \<Rightarrow> bool" where
  "canonical_id k = (k \<noteq> [] \<and> list_all is_digit k \<and> hd k \<noteq> CHR ''0'')"

section \<open>Properties\<close>

subsection \<open>Digits\<close>

lemma digit_cases:
  assumes "d < 10"
  shows "d = 0 \<or> d = 1 \<or> d = 2 \<or> d = 3 \<or> d = 4 \<or> d = 5 \<or> d = 6 \<or> d = 7 \<or> d = 8 \<or> d = (9::nat)"
  using assms by presburger

lemma is_digit_digit_char: "d < 10 \<Longrightarrow> is_digit (digit_char d)"
  using digit_cases [of d] by (auto simp add: is_digit_def digit_char_def)

lemma digit_val_digit_char: "d < 10 \<Longrightarrow> digit_val (digit_char d) = d"
  using digit_cases [of d] by (auto simp add: digit_val_def digit_char_def)

lemma digit_char_nonzero: "0 < d \<Longrightarrow> d < 10 \<Longrightarrow> digit_char d \<noteq> CHR ''0''"
  using digit_cases [of d] by (auto simp add: digit_char_def)

lemma nat_of_digits_2: "nat_of_digits [a, b] = 10 * digit_val a + digit_val b"
  by (simp add: nat_of_digits_def)

lemma nat_of_digits_4:
  "nat_of_digits [a, b, c, d] =
     10 * (10 * (10 * digit_val a + digit_val b) + digit_val c) + digit_val d"
  by (simp add: nat_of_digits_def)

lemma nat_of_digits_pad2:
  assumes "n < 100"
  shows "nat_of_digits (pad2 n) = n"
proof -
  define q where "q = n div 10"
  define r where "r = n mod 10"
  have n: "n = 10 * q + r" by (simp add: q_def r_def)
  have "q < 10" using assms by (simp add: q_def)
  then have q: "q mod 10 = q" by simp
  have r: "r < 10" by (simp add: r_def)
  have "pad2 n = [digit_char q, digit_char r]"
    unfolding pad2_def q_def [symmetric] r_def [symmetric] q by (rule refl)
  then have "nat_of_digits (pad2 n) = 10 * digit_val (digit_char q) + digit_val (digit_char r)"
    by (simp only: nat_of_digits_2)
  also have "\<dots> = 10 * q + r"
    by (simp only: digit_val_digit_char [OF \<open>q < 10\<close>] digit_val_digit_char [OF r])
  finally show ?thesis by (simp only: n)
qed

lemma nat_of_digits_pad4:
  assumes "n < 10000"
  shows "nat_of_digits (pad4 n) = n"
proof -
  define q1 where "q1 = n div 10"
  define q2 where "q2 = n div 100"
  define q3 where "q3 = n div 1000"
  define r0 where "r0 = n mod 10"
  define r1 where "r1 = q1 mod 10"
  define r2 where "r2 = q2 mod 10"
  have q2: "q2 = q1 div 10"
    unfolding q1_def q2_def by (simp add: div_mult2_eq [symmetric])
  have q3': "q3 = q2 div 10"
    unfolding q2_def q3_def by (simp add: div_mult2_eq [symmetric])
  have n: "n = 10 * q1 + r0" by (simp add: q1_def r0_def)
  have e1: "q1 = 10 * q2 + r1" by (simp add: q2 r1_def)
  have e2: "q2 = 10 * q3 + r2" by (simp add: q3' r2_def)
  have "q3 < 10" using assms by (simp add: q3_def)
  then have q3: "q3 mod 10 = q3" by simp
  have r: "r0 < 10" "r1 < 10" "r2 < 10" by (simp_all add: r0_def r1_def r2_def)
  have "pad4 n = [digit_char q3, digit_char r2, digit_char r1, digit_char r0]"
    unfolding pad4_def q1_def [symmetric] q2_def [symmetric] q3_def [symmetric]
      r0_def [symmetric] r1_def [symmetric] r2_def [symmetric] q3 by (rule refl)
  then have "nat_of_digits (pad4 n) =
      10 * (10 * (10 * digit_val (digit_char q3) + digit_val (digit_char r2))
        + digit_val (digit_char r1)) + digit_val (digit_char r0)"
    by (simp only: nat_of_digits_4)
  also have "\<dots> = 10 * (10 * (10 * q3 + r2) + r1) + r0"
    by (simp only: digit_val_digit_char [OF \<open>q3 < 10\<close>] r [THEN digit_val_digit_char])
  also have "\<dots> = n"
    by (simp only: e2 [symmetric] e1 [symmetric] n [symmetric])
  finally show ?thesis .
qed

lemma all_digits_pad2: "list_all is_digit (pad2 n)"
  by (simp add: pad2_def is_digit_digit_char)

lemma all_digits_pad4: "list_all is_digit (pad4 n)"
  by (simp add: pad4_def is_digit_digit_char)

lemma str_nat_nonempty: "str_nat n \<noteq> []"
  by (subst str_nat.simps) simp

lemma str_nat_digits: "list_all is_digit (str_nat n)"
proof (induction n rule: str_nat.induct)
  case (1 n)
  show ?case
  proof (cases "n < 10")
    case True
    then show ?thesis by (subst str_nat.simps) (simp add: is_digit_digit_char)
  next
    case False
    have "n mod 10 < 10" by simp
    then have "is_digit (digit_char (n mod 10))" by (rule is_digit_digit_char)
    then show ?thesis using False "1.IH" by (subst str_nat.simps) simp
  qed
qed

lemma str_nat_hd: "0 < n \<Longrightarrow> hd (str_nat n) \<noteq> CHR ''0''"
proof (induction n rule: str_nat.induct)
  case (1 n)
  show ?case
  proof (cases "n < 10")
    case True
    then show ?thesis using "1.prems" by (subst str_nat.simps) (simp add: digit_char_nonzero)
  next
    case False
    then have "0 < n div 10" by simp
    then have "hd (str_nat (n div 10)) \<noteq> CHR ''0''" using False by (intro "1.IH") simp_all
    then show ?thesis using False by (subst str_nat.simps) (simp add: str_nat_nonempty)
  qed
qed

lemma nat_of_digits_snoc: "nat_of_digits (ds @ [c]) = 10 * nat_of_digits ds + digit_val c"
  by (simp add: nat_of_digits_def)

lemma nat_of_digits_str_nat: "nat_of_digits (str_nat n) = n"
proof (induction n rule: str_nat.induct)
  case (1 n)
  show ?case
  proof (cases "n < 10")
    case True
    then have "str_nat n = [digit_char n]" by (subst str_nat.simps) simp
    then show ?thesis using True by (simp add: nat_of_digits_def digit_val_digit_char)
  next
    case False
    then have s: "str_nat n = str_nat (n div 10) @ [digit_char (n mod 10)]"
      by (subst str_nat.simps) simp
    have "n mod 10 < 10" by simp
    then have d: "digit_val (digit_char (n mod 10)) = n mod 10" by (rule digit_val_digit_char)
    have "nat_of_digits (str_nat n) = 10 * nat_of_digits (str_nat (n div 10)) + n mod 10"
      by (simp only: s nat_of_digits_snoc d)
    also have "\<dots> = 10 * (n div 10) + n mod 10" using "1.IH" [OF False] by simp
    finally show ?thesis by simp
  qed
qed

lemma digit_val_le: "is_digit c \<Longrightarrow> digit_val c \<le> 9"
  by (auto simp add: is_digit_def digit_val_def)

lemma nat_of_digits_lt:
  assumes "list_all is_digit ds"
  shows "nat_of_digits ds < 10 ^ length ds"
  using assms
proof (induction ds rule: rev_induct)
  case Nil
  show ?case by (simp add: nat_of_digits_def)
next
  case (snoc c ds)
  have a: "nat_of_digits ds < 10 ^ length ds" using snoc by simp
  have d: "digit_val c \<le> 9" using snoc.prems by (simp add: digit_val_le)
  have "10 * nat_of_digits ds + digit_val c < 10 * 10 ^ length ds" using a d by linarith
  then show ?case by (simp add: nat_of_digits_snoc)
qed

lemma str_nat_length:
  assumes "n < 10 ^ k" and "0 < k"
  shows "length (str_nat n) \<le> k"
  using assms
proof (induction n arbitrary: k rule: str_nat.induct)
  case (1 n)
  show ?case
  proof (cases "n < 10")
    case True
    then have "str_nat n = [digit_char n]" by (subst str_nat.simps) simp
    then show ?thesis using "1.prems"(2) by simp
  next
    case False
    then have s: "str_nat n = str_nat (n div 10) @ [digit_char (n mod 10)]"
      by (subst str_nat.simps) simp
    obtain j where k: "k = Suc j" using "1.prems"(2) by (cases k) simp_all
    have "0 < j"
    proof (rule ccontr)
      assume "\<not> 0 < j"
      then have "n < 10" using "1.prems"(1) k by simp
      then show False using False by simp
    qed
    moreover have "n div 10 < 10 ^ j"
      using "1.prems"(1) k by (simp add: less_mult_imp_div_less mult.commute)
    ultimately have "length (str_nat (n div 10)) \<le> j" using "1.IH" [OF False] by blast
    then show ?thesis by (simp add: s k)
  qed
qed

subsection \<open>\<^verbatim>\<open>int\<close> reads back what \<^verbatim>\<open>str\<close> writes\<close>

lemma is_digit_not_special:
  assumes "is_digit c"
  shows "\<not> is_int_space c" and "c \<noteq> CHR ''-''" and "c \<noteq> CHR ''+''" and "c \<noteq> CHR ''_''"
  using assms by (auto simp add: is_digit_def is_int_space_def)

lemma no_double_underscore:
  assumes "list_all is_digit ds"
  shows "\<not> has_double_underscore ds"
  using assms
proof (induction ds rule: has_double_underscore.induct)
  case (1 a b r)
  then show ?case using is_digit_not_special(4) [of a] by simp
qed simp_all

lemma py_int_digits:
  assumes "ds \<noteq> []" and "list_all is_digit ds" and "length ds \<le> int_max_str_digits"
  shows "py_int ds = Some (int (nat_of_digits ds))"
proof -
  obtain c cs where ds: "ds = c # cs" using assms(1) by (cases ds) simp_all
  have c: "is_digit c" using assms(2) ds by simp
  have l: "is_digit (last ds)" using assms(1,2) by (simp add: list_all_iff)
  have s1: "dropWhile is_int_space ds = ds"
    using is_digit_not_special(1) [OF c] by (simp add: ds)
  have hd: "hd ds \<noteq> CHR ''-''" "hd ds \<noteq> CHR ''+''" "hd ds \<noteq> CHR ''_''"
    using is_digit_not_special [OF c] by (simp_all add: ds)
  have last: "last ds \<noteq> CHR ''_''" using is_digit_not_special(4) [OF l] .
  have all: "\<forall>x \<in> set ds. is_digit x \<or> x = CHR ''_''" using assms(2) by (simp add: list_all_iff)
  have body: "takeWhile (\<lambda>c. is_digit c \<or> c = CHR ''_'') ds = ds"
    using all by (simp add: takeWhile_eq_all_conv)
  have rest: "dropWhile (\<lambda>c. is_digit c \<or> c = CHR ''_'') ds = []"
    using all by (simp add: dropWhile_eq_Nil_conv)
  have fl: "filter is_digit ds = ds" using assms(2) by (simp add: list_all_iff filter_id_conv)
  show ?thesis
    unfolding py_int_def Let_def s1
    using assms(1,3) hd last no_double_underscore [OF assms(2)]
    by (simp add: body rest fl)
qed

lemma py_int_value:
  assumes "py_int s = Some n"
  shows "\<exists>ds. list_all is_digit ds \<and> length ds \<le> int_max_str_digits
           \<and> (n = int (nat_of_digits ds) \<or> n = - int (nat_of_digits ds))"
proof -
  define s1 where "s1 = dropWhile is_int_space s"
  define neg where "neg = (s1 \<noteq> [] \<and> hd s1 = CHR ''-'')"
  define s2 where "s2 = (if s1 \<noteq> [] \<and> (hd s1 = CHR ''+'' \<or> hd s1 = CHR ''-'') then tl s1 else s1)"
  define body where "body = takeWhile (\<lambda>c. is_digit c \<or> c = CHR ''_'') s2"
  define rest where "rest = dropWhile (\<lambda>c. is_digit c \<or> c = CHR ''_'') s2"
  define ds where "ds = filter is_digit body"
  have eq: "py_int s =
      (if body = [] \<or> hd body = CHR ''_'' \<or> last body = CHR ''_''
            \<or> has_double_underscore body
            \<or> dropWhile is_int_space rest \<noteq> []
            \<or> length ds > int_max_str_digits
       then None
       else Some (if neg then - int (nat_of_digits ds) else int (nat_of_digits ds)))"
    unfolding py_int_def Let_def ds_def body_def rest_def s2_def neg_def s1_def by (rule refl)
  have "list_all is_digit ds" by (simp add: ds_def list_all_iff)
  moreover have "length ds \<le> int_max_str_digits"
    using assms eq by (simp split: if_splits)
  moreover have "n = int (nat_of_digits ds) \<or> n = - int (nat_of_digits ds)"
    using assms eq by (simp split: if_splits)
  ultimately show ?thesis by blast
qed

lemma py_int_py_str:
  assumes "py_int s = Some n" and "0 < n"
  shows "py_int (py_str n) = Some n"
proof -
  obtain ds where ds: "list_all is_digit ds" "length ds \<le> int_max_str_digits"
      "n = int (nat_of_digits ds) \<or> n = - int (nat_of_digits ds)"
    using py_int_value [OF assms(1)] by blast
  have n: "nat n = nat_of_digits ds" using ds(3) assms(2) by auto
  have "ds \<noteq> []"
  proof
    assume "ds = []"
    then have "nat n = 0" using n by (simp add: nat_of_digits_def)
    then show False using assms(2) by simp
  qed
  then have "0 < length ds" by simp
  moreover have "nat n < 10 ^ length ds" using nat_of_digits_lt [OF ds(1)] n by simp
  ultimately have "length (str_nat (nat n)) \<le> length ds" by (rule str_nat_length [rotated])
  then have len: "length (str_nat (nat n)) \<le> int_max_str_digits" using ds(2) by simp
  have "py_int (str_nat (nat n)) = Some (int (nat_of_digits (str_nat (nat n))))"
    using str_nat_nonempty str_nat_digits len by (rule py_int_digits)
  then show ?thesis using assms(2) by (simp add: py_str_def nat_of_digits_str_nat)
qed

subsection \<open>Dates\<close>

lemma str_nat_pad4:
  assumes "1000 \<le> n" and "n < 10000"
  shows "str_nat n = pad4 n"
proof -
  define q1 where "q1 = n div 10"
  define q2 where "q2 = n div 100"
  define q3 where "q3 = n div 1000"
  have q2: "q2 = q1 div 10"
    unfolding q1_def q2_def by (simp add: div_mult2_eq [symmetric])
  have q3': "q3 = q2 div 10"
    unfolding q2_def q3_def by (simp add: div_mult2_eq [symmetric])
  have b1: "\<not> n < 10" using assms(1) by simp
  have b2: "\<not> q1 < 10" using assms(1) by (simp add: q1_def)
  have b3: "\<not> q2 < 10" using assms(1) by (simp add: q2_def)
  have b4: "q3 < 10" using assms(2) by (simp add: q3_def)
  have "str_nat n = str_nat q1 @ [digit_char (n mod 10)]"
    using b1 by (subst str_nat.simps) (simp add: q1_def)
  also have "str_nat q1 = str_nat q2 @ [digit_char (q1 mod 10)]"
    using b2 by (subst str_nat.simps) (simp add: q2)
  also have "str_nat q2 = str_nat q3 @ [digit_char (q2 mod 10)]"
    using b3 by (subst str_nat.simps) (simp add: q3')
  also have "str_nat q3 = [digit_char q3]"
    using b4 by (subst str_nat.simps) simp
  finally have "str_nat n =
      [digit_char q3, digit_char (q2 mod 10), digit_char (q1 mod 10), digit_char (n mod 10)]"
    by simp
  moreover have "q3 mod 10 = q3" using b4 by simp
  ultimately show ?thesis
    by (simp add: pad4_def q1_def [symmetric] q2_def [symmetric] q3_def [symmetric])
qed

lemma iso_Ymd_strftime:
  assumes "1000 \<le> year b" and "year b < 10000" and "month b < 100" and "day b < 100"
  shows "iso_Ymd (strftime_Ymd b) = Some (year b, month b, day b)"
proof -
  obtain y1 y2 y3 y4 where y: "pad4 (year b) = [y1, y2, y3, y4]" by (simp add: pad4_def)
  obtain m1 m2 where m: "pad2 (month b) = [m1, m2]" by (simp add: pad2_def)
  obtain d1 d2 where d: "pad2 (day b) = [d1, d2]" by (simp add: pad2_def)
  have s: "strftime_Ymd b = [y1, y2, y3, y4, CHR ''-'', m1, m2, CHR ''-'', d1, d2]"
    by (simp add: strftime_Ymd_def str_nat_pad4 [OF assms(1,2)] y m d)
  have dy: "list_all is_digit [y1, y2, y3, y4]" using all_digits_pad4 [of "year b"] by (simp only: y)
  have dm: "list_all is_digit [m1, m2]" using all_digits_pad2 [of "month b"] by (simp only: m)
  have dd: "list_all is_digit [d1, d2]" using all_digits_pad2 [of "day b"] by (simp only: d)
  have ny: "nat_of_digits [y1, y2, y3, y4] = year b"
    using nat_of_digits_pad4 [OF assms(2)] by (simp only: y)
  have nm: "nat_of_digits [m1, m2] = month b"
    using nat_of_digits_pad2 [OF assms(3)] by (simp only: m)
  have nd: "nat_of_digits [d1, d2] = day b"
    using nat_of_digits_pad2 [OF assms(4)] by (simp only: d)
  have t1: "take 4 (strftime_Ymd b) = [y1, y2, y3, y4]" by (simp add: s)
  have t2: "take 2 (drop 5 (strftime_Ymd b)) = [m1, m2]" by (simp add: s)
  have t3: "drop 8 (strftime_Ymd b) = [d1, d2]" by (simp add: s)
  have l: "length (strftime_Ymd b) = 10" by (simp add: s)
  have h1: "strftime_Ymd b ! 4 = CHR ''-''" by (simp add: s)
  have h2: "strftime_Ymd b ! 7 = CHR ''-''" by (simp add: s)
  show ?thesis
    unfolding iso_Ymd_def t1 t2 t3 ny nm nd
    using l h1 h2 dy dm dd by simp
qed

subsection \<open>What the format matches\<close>

lemma re_set_elem:
  assumes "(a, r) \<in> set (re_set cs s)"
  shows "\<exists>c. c \<in> set cs \<and> a = [c] \<and> s = c # r"
  using assms by (auto simp add: re_set_def split: list.splits if_splits)

lemma re_seq_elem:
  assumes "(a, r) \<in> set (re_seq p q s)"
  shows "\<exists>a1 a2 r1. (a1, r1) \<in> set (p s) \<and> (a2, r) \<in> set (q r1) \<and> a = a1 @ a2"
  using assms by (auto simp add: re_seq_def)

lemma re_alt_elem:
  assumes "(a, r) \<in> set (re_alt ps s)"
  shows "\<exists>p \<in> set ps. (a, r) \<in> set (p s)"
  using assms by (auto simp add: re_alt_def)

lemma re_digit_elem:
  assumes "(a, r) \<in> set (re_digit s)"
  shows "\<exists>c. is_digit c \<and> a = [c] \<and> s = c # r"
  using re_set_elem [of a r "''0123456789''" s] assms
  by (simp add: re_digit_def is_digit_def)

lemma re_digit_pair_elem:
  assumes "(a, r) \<in> set (re_seq (re_set cs) (re_set ds) s)"
    and "\<forall>c \<in> set cs. is_digit c" and "\<forall>c \<in> set ds. is_digit c"
  shows "s = a @ r \<and> a \<noteq> [] \<and> list_all is_digit a \<and> length a \<le> 2"
proof -
  obtain a1 a2 r1 where 1: "(a1, r1) \<in> set (re_set cs s)" and 2: "(a2, r) \<in> set (re_set ds r1)"
    and a: "a = a1 @ a2"
    using re_seq_elem [OF assms(1)] by blast
  obtain c1 where c1: "c1 \<in> set cs" "a1 = [c1]" "s = c1 # r1" using re_set_elem [OF 1] by blast
  obtain c2 where c2: "c2 \<in> set ds" "a2 = [c2]" "r1 = c2 # r" using re_set_elem [OF 2] by blast
  show ?thesis using a c1 c2 assms(2,3) by simp
qed

lemma re_digit_single_elem:
  assumes "(a, r) \<in> set (re_set cs s)" and "\<forall>c \<in> set cs. is_digit c"
  shows "s = a @ r \<and> a \<noteq> [] \<and> list_all is_digit a \<and> length a \<le> 2"
proof -
  obtain c where "c \<in> set cs" "a = [c]" "s = c # r" using re_set_elem [OF assms(1)] by blast
  then show ?thesis using assms(2) by simp
qed

lemma re_m_elem:
  assumes "(a, r) \<in> set (re_m s)"
  shows "s = a @ r \<and> a \<noteq> [] \<and> list_all is_digit a \<and> length a \<le> 2"
proof -
  have "(a, r) \<in> set (re_seq (re_set ''1'') (re_set ''012'') s)
      \<or> (a, r) \<in> set (re_seq (re_set ''0'') (re_set ''123456789'') s)
      \<or> (a, r) \<in> set (re_set ''123456789'' s)"
    using re_alt_elem [OF assms [unfolded re_m_def]] by auto
  then show ?thesis
  proof (elim disjE)
    assume "(a, r) \<in> set (re_seq (re_set ''1'') (re_set ''012'') s)"
    then show ?thesis by (rule re_digit_pair_elem) (simp_all add: is_digit_def)
  next
    assume "(a, r) \<in> set (re_seq (re_set ''0'') (re_set ''123456789'') s)"
    then show ?thesis by (rule re_digit_pair_elem) (simp_all add: is_digit_def)
  next
    assume "(a, r) \<in> set (re_set ''123456789'' s)"
    then show ?thesis by (rule re_digit_single_elem) (simp add: is_digit_def)
  qed
qed

lemma re_d_elem:
  assumes "(a, r) \<in> set (re_d s)"
  shows "s = a @ r \<and> ((a \<noteq> [] \<and> list_all is_digit a \<and> length a \<le> 2)
                       \<or> (\<exists>c. is_digit c \<and> a = [CHR '' '', c]))"
proof -
  have "(a, r) \<in> set (re_seq (re_set ''3'') (re_set ''01'') s)
      \<or> (a, r) \<in> set (re_seq (re_set ''12'') re_digit s)
      \<or> (a, r) \<in> set (re_seq (re_set ''0'') (re_set ''123456789'') s)
      \<or> (a, r) \<in> set (re_set ''123456789'' s)
      \<or> (a, r) \<in> set (re_seq (re_set '' '') (re_set ''123456789'') s)"
    using re_alt_elem [OF assms [unfolded re_d_def]] by auto
  then show ?thesis
  proof (elim disjE)
    assume "(a, r) \<in> set (re_seq (re_set ''3'') (re_set ''01'') s)"
    then have "s = a @ r \<and> a \<noteq> [] \<and> list_all is_digit a \<and> length a \<le> 2"
      by (rule re_digit_pair_elem) (simp_all add: is_digit_def)
    then show ?thesis by blast
  next
    assume "(a, r) \<in> set (re_seq (re_set ''12'') re_digit s)"
    then have "s = a @ r \<and> a \<noteq> [] \<and> list_all is_digit a \<and> length a \<le> 2"
      unfolding re_digit_def by (rule re_digit_pair_elem) (simp_all add: is_digit_def)
    then show ?thesis by blast
  next
    assume "(a, r) \<in> set (re_seq (re_set ''0'') (re_set ''123456789'') s)"
    then have "s = a @ r \<and> a \<noteq> [] \<and> list_all is_digit a \<and> length a \<le> 2"
      by (rule re_digit_pair_elem) (simp_all add: is_digit_def)
    then show ?thesis by blast
  next
    assume "(a, r) \<in> set (re_set ''123456789'' s)"
    then have "s = a @ r \<and> a \<noteq> [] \<and> list_all is_digit a \<and> length a \<le> 2"
      by (rule re_digit_single_elem) (simp add: is_digit_def)
    then show ?thesis by blast
  next
    assume five: "(a, r) \<in> set (re_seq (re_set '' '') (re_set ''123456789'') s)"
    obtain a1 a2 r1 where 1: "(a1, r1) \<in> set (re_set '' '' s)"
      and 2: "(a2, r) \<in> set (re_set ''123456789'' r1)" and a: "a = a1 @ a2"
      using re_seq_elem [OF five] by blast
    obtain c1 where c1: "c1 \<in> set '' ''" "a1 = [c1]" "s = c1 # r1"
      using re_set_elem [OF 1] by blast
    obtain c2 where c2: "c2 \<in> set ''123456789''" "a2 = [c2]" "r1 = c2 # r"
      using re_set_elem [OF 2] by blast
    have "is_digit c2" using c2(1) by (simp add: is_digit_def)
    moreover have "c1 = CHR '' ''" using c1(1) by simp
    ultimately show ?thesis using a c1 c2 by simp
  qed
qed

lemma re_Y_elem:
  assumes "(a, r) \<in> set (re_Y s)"
  shows "s = a @ r \<and> length a = 4 \<and> list_all is_digit a"
proof -
  obtain a1 b1 r1 where 1: "(a1, r1) \<in> set (re_digit s)"
    and p1: "(b1, r) \<in> set (re_seq re_digit (re_seq re_digit re_digit) r1)" and a: "a = a1 @ b1"
    using re_seq_elem [OF assms [unfolded re_Y_def]] by blast
  obtain a2 b2 r2 where 2: "(a2, r2) \<in> set (re_digit r1)"
    and p2: "(b2, r) \<in> set (re_seq re_digit re_digit r2)" and b1: "b1 = a2 @ b2"
    using re_seq_elem [OF p1] by blast
  obtain a3 a4 r3 where 3: "(a3, r3) \<in> set (re_digit r2)"
    and 4: "(a4, r) \<in> set (re_digit r3)" and b2: "b2 = a3 @ a4"
    using re_seq_elem [OF p2] by blast
  obtain c1 where c1: "is_digit c1" "a1 = [c1]" "s = c1 # r1" using re_digit_elem [OF 1] by blast
  obtain c2 where c2: "is_digit c2" "a2 = [c2]" "r1 = c2 # r2" using re_digit_elem [OF 2] by blast
  obtain c3 where c3: "is_digit c3" "a3 = [c3]" "r2 = c3 # r3" using re_digit_elem [OF 3] by blast
  obtain c4 where c4: "is_digit c4" "a4 = [c4]" "r3 = c4 # r" using re_digit_elem [OF 4] by blast
  show ?thesis using a b1 b2 c1 c2 c3 c4 by simp
qed

lemma re_dmY_elem:
  assumes "((d, m, y), r) \<in> set (re_dmY s)"
  shows "\<exists>r1 r2 r3 r4. (d, r1) \<in> set (re_d s) \<and> r1 = CHR ''/'' # r2
           \<and> (m, r3) \<in> set (re_m r2) \<and> r3 = CHR ''/'' # r4 \<and> (y, r) \<in> set (re_Y r4)"
proof -
  obtain r1 x1 r2 r3 x2 r4 where "(d, r1) \<in> set (re_d s)" "(x1, r2) \<in> set (re_set ''/'' r1)"
    "(m, r3) \<in> set (re_m r2)" "(x2, r4) \<in> set (re_set ''/'' r3)" "(y, r) \<in> set (re_Y r4)"
    using assms unfolding re_dmY_def by auto
  then show ?thesis using re_set_elem [of x1 r2 "''/''" r1] re_set_elem [of x2 r4 "''/''" r3]
    by auto
qed

subsection \<open>What \<^verbatim>\<open>strptime\<close> returns\<close>

lemma make_date_range:
  assumes "make_date y m d = Some b"
  shows "1 \<le> year b \<and> year b \<le> 9999 \<and> 1 \<le> month b \<and> month b \<le> 12 \<and> 1 \<le> day b \<and> day b \<le> 31"
proof -
  have dim: "days_in_month y m \<le> 31" by (simp add: days_in_month_def)
  have ok: "1 \<le> y \<and> y \<le> 9999 \<and> 1 \<le> m \<and> m \<le> 12 \<and> 1 \<le> d \<and> d \<le> days_in_month y m"
    and b: "b = \<lparr>year = y, month = m, day = d\<rparr>"
    using assms unfolding make_date_def by (simp_all split: if_splits)
  show ?thesis using ok dim by (simp add: b)
qed

lemma strptime_dmY_make_date:
  assumes "strptime_dmY s = Some b"
  shows "\<exists>y m d. make_date y m d = Some b"
proof (cases "re_dmY s")
  case Nil
  then show ?thesis using assms by (simp add: strptime_dmY_def)
next
  case (Cons x xs)
  obtain dt mt yt rest where x: "x = ((dt, mt, yt), rest)" by (cases x) auto
  show ?thesis
  proof (cases "rest = []")
    case False
    then show ?thesis using assms by (simp add: strptime_dmY_def Cons x)
  next
    case True
    then have "(case (py_int yt, py_int mt, py_int dt) of
                  (Some yi, Some mi, Some di) \<Rightarrow> make_date (nat yi) (nat mi) (nat di)
                | _ \<Rightarrow> None) = Some b"
      using assms by (simp add: strptime_dmY_def Cons x)
    then show ?thesis by (auto split: option.splits)
  qed
qed

lemma strptime_dmY_range:
  assumes "strptime_dmY s = Some b"
  shows "1 \<le> year b \<and> year b \<le> 9999 \<and> 1 \<le> month b \<and> month b \<le> 12 \<and> 1 \<le> day b \<and> day b \<le> 31"
  using strptime_dmY_make_date [OF assms] make_date_range by blast

lemma py_int_leading_space: "py_int (CHR '' '' # s) = py_int s"
  by (simp add: py_int_def is_int_space_def)

lemma py_int_short_digits:
  assumes "a \<noteq> []" and "list_all is_digit a" and "length a \<le> 4"
  shows "py_int a = Some (int (nat_of_digits a))"
  using assms(1,2) by (rule py_int_digits) (use assms(3) in \<open>simp add: int_max_str_digits_def\<close>)

lemma py_int_day_text:
  assumes "(a \<noteq> [] \<and> list_all is_digit a \<and> length a \<le> 2)
           \<or> (\<exists>c. is_digit c \<and> a = [CHR '' '', c])"
  shows "py_int a = Some (int (nat_of_digits (filter is_digit a)))"
  using assms
proof (elim disjE conjE exE)
  assume a: "a \<noteq> []" "list_all is_digit a" "length a \<le> 2"
  then have "filter is_digit a = a" by (simp add: list_all_iff filter_id_conv)
  moreover have "py_int a = Some (int (nat_of_digits a))"
    using a by (intro py_int_short_digits) simp_all
  ultimately show ?thesis by simp
next
  fix c assume c: "is_digit c" "a = [CHR '' '', c]"
  have "\<not> is_digit CHR '' ''" by (simp add: is_digit_def)
  then have "filter is_digit a = [c]" using c by simp
  moreover have "py_int a = Some (int (nat_of_digits [c]))"
    unfolding c(2) py_int_leading_space using c(1) by (intro py_int_short_digits) simp_all
  ultimately show ?thesis by simp
qed

lemma strptime_dmY_text:
  assumes "strptime_dmY s = Some b"
  shows "\<exists>dt mt yt. s = dt @ ''/'' @ mt @ ''/'' @ yt
           \<and> list_all (\<lambda>c. is_digit c \<or> c = CHR '' '') dt
           \<and> list_all is_digit mt \<and> list_all is_digit yt \<and> length yt = 4
           \<and> nat_of_digits (filter is_digit dt) = day b
           \<and> nat_of_digits mt = month b
           \<and> nat_of_digits yt = year b"
proof (cases "re_dmY s")
  case Nil
  then show ?thesis using assms by (simp add: strptime_dmY_def)
next
  case (Cons x xs)
  obtain dt mt yt rest where x: "x = ((dt, mt, yt), rest)" by (cases x) auto
  have rest: "rest = []"
  proof (rule ccontr)
    assume "rest \<noteq> []"
    then show False using assms by (simp add: strptime_dmY_def Cons x)
  qed
  have "((dt, mt, yt), []) \<in> set (re_dmY s)" by (simp add: Cons x rest)
  then obtain r1 r2 r3 r4 where d: "(dt, r1) \<in> set (re_d s)" and r1: "r1 = CHR ''/'' # r2"
    and m: "(mt, r3) \<in> set (re_m r2)" and r3: "r3 = CHR ''/'' # r4"
    and y: "(yt, []) \<in> set (re_Y r4)"
    using re_dmY_elem by blast
  note dd = re_d_elem [OF d] and mm = re_m_elem [OF m] and yy = re_Y_elem [OF y]
  have s: "s = dt @ ''/'' @ mt @ ''/'' @ yt" using dd mm yy r1 r3 by simp
  have pd: "py_int dt = Some (int (nat_of_digits (filter is_digit dt)))"
    using dd by (intro py_int_day_text) blast
  have pm: "py_int mt = Some (int (nat_of_digits mt))"
    using mm by (intro py_int_short_digits) simp_all
  have py: "py_int yt = Some (int (nat_of_digits yt))"
    using yy by (intro py_int_short_digits) auto
  have "make_date (nat_of_digits yt) (nat_of_digits mt) (nat_of_digits (filter is_digit dt)) = Some b"
    using assms by (simp add: strptime_dmY_def Cons x rest pd pm py)
  then have b: "b = \<lparr>year = nat_of_digits yt, month = nat_of_digits mt,
                    day = nat_of_digits (filter is_digit dt)\<rparr>"
    by (simp add: make_date_def split: if_splits)
  have cd: "list_all (\<lambda>c. is_digit c \<or> c = CHR '' '') dt"
    using dd by (auto simp add: list_all_iff)
  show ?thesis using s cd mm yy b by auto
qed

lemma iso_Ymd_strptime:
  assumes "strptime_dmY s = Some b" and "1000 \<le> year b"
  shows "iso_Ymd (strftime_Ymd b) = Some (year b, month b, day b)"
proof -
  have "year b < 10000" and "month b < 100" and "day b < 100"
    using strptime_dmY_range [OF assms(1)] by simp_all
  then show ?thesis by (rule iso_Ymd_strftime [OF assms(2)])
qed

subsection \<open>The loop over the rows\<close>

lemma index_row3:
  assumes "3 \<le> length row"
  shows "index row 0 = Inr (row ! 0)" and "index row (Suc 0) = Inr (row ! 1)" and "index row 2 = Inr (row ! 2)"
proof -
  have "0 < length row" and "1 < length row" and "2 < length row"
    using assms by linarith+
  then show "index row 0 = Inr (row ! 0)" and "index row (Suc 0) = Inr (row ! 1)"
    and "index row 2 = Inr (row ! 2)"
    unfolding index_def by simp_all
qed

lemma row_log_Nil: "row_log n [] = []"
  by (simp add: row_log_def)

lemma row_log_Cons:
  "row_log n (row # rows) =
     (if valid_row row then [] else [row_error_msg n (row ! 0) (row ! 2)]) @ row_log (Suc n) rows"
  by (simp add: row_log_def)

lemma add_rows_Nil: "add_rows d [] = d"
  by (simp add: add_rows_def)

lemma add_rows_Cons:
  "add_rows d (row # rows) = add_rows (AList.update (row ! 0) (row ! 1, the (strptime_dmY (row ! 2))) d) rows"
  by (simp add: add_rows_def row_entry_def)

lemma process_rows_step_valid:
  assumes "3 \<le> length row" and "strptime_dmY (row ! 2) = Some b"
  shows "process_rows n (row # rows) err d w =
         process_rows (Suc n) rows err (AList.update (row ! 0) (row ! 1, b) d) w"
  using assms(2) by (simp add: index_row3 [OF assms(1)])

lemma process_rows_step_invalid:
  assumes "3 \<le> length row" and "strptime_dmY (row ! 2) = None"
  shows "process_rows n (row # rows) err d w =
         process_rows (Suc n) rows err d (logging_error (row_error_msg n (row ! 0) (row ! 2)) w)"
  using assms(2) by (simp add: index_row3 [OF assms(1)])

lemma process_rows_short:
  assumes "length row < 3"
  shows "process_rows n (row # rows) err d w = (Inl IndexError, w)"
proof -
  consider "length row = 0" | "length row = 1" | "length row = 2"
    using assms by linarith
  then show ?thesis
    by cases (simp_all add: index_def)
qed

lemma process_rows_append:
  assumes "\<forall>row \<in> set pre. 3 \<le> length row"
  shows "process_rows n (pre @ rest) err d w =
         process_rows (n + length pre) rest err (add_rows d (filter valid_row pre))
           (w\<lparr>errlog := errlog w @ row_log n pre\<rparr>)"
  using assms
proof (induction pre arbitrary: n d w)
  case Nil
  show ?case by (simp add: row_log_Nil add_rows_Nil)
next
  case (Cons row pre)
  have len: "3 \<le> length row" and rest: "\<forall>row \<in> set pre. 3 \<le> length row"
    using Cons.prems by simp_all
  show ?case
  proof (cases "strptime_dmY (row ! 2)")
    case None
    then have nv: "\<not> valid_row row" by (simp add: valid_row_def)
    have "process_rows n ((row # pre) @ rest) err d w =
          process_rows (Suc n) (pre @ rest) err d (logging_error (row_error_msg n (row ! 0) (row ! 2)) w)"
      using process_rows_step_invalid [OF len None] by simp
    also have "\<dots> = process_rows (Suc n + length pre) rest err (add_rows d (filter valid_row pre))
          ((logging_error (row_error_msg n (row ! 0) (row ! 2)) w)
             \<lparr>errlog := errlog (logging_error (row_error_msg n (row ! 0) (row ! 2)) w) @ row_log (Suc n) pre\<rparr>)"
      by (rule Cons.IH [OF rest])
    finally show ?thesis
      using nv by (simp add: row_log_Cons logging_error_def)
  next
    case (Some b)
    then have v: "valid_row row" by (simp add: valid_row_def)
    have "process_rows n ((row # pre) @ rest) err d w =
          process_rows (Suc n) (pre @ rest) err (AList.update (row ! 0) (row ! 1, b) d) w"
      using process_rows_step_valid [OF len Some] by simp
    also have "\<dots> = process_rows (Suc n + length pre) rest err
          (add_rows (AList.update (row ! 0) (row ! 1, b) d) (filter valid_row pre))
          (w\<lparr>errlog := errlog w @ row_log (Suc n) pre\<rparr>)"
      by (rule Cons.IH [OF rest])
    finally show ?thesis
      using v Some by (simp add: row_log_Cons add_rows_Cons)
  qed
qed

lemma process_rows_all:
  assumes "\<forall>row \<in> set rows. 3 \<le> length row"
  shows "process_rows n rows None d w =
         (Inr (add_rows d (filter valid_row rows)), w\<lparr>errlog := errlog w @ row_log n rows\<rparr>)"
  using process_rows_append [OF assms, of n "[]" None d w] by simp

lemma processData_rows:
  assumes "csv_reader (splitlines csvData) = (header # rows, err)"
  shows "processData csvData w = process_rows 1 rows err [] w"
  using assms by (simp add: processData_def)

lemma map_of_add_rows_none:
  assumes "\<forall>row \<in> set rows. row ! 0 \<noteq> k"
  shows "map_of (add_rows d rows) k = map_of d k"
  using assms by (induction rows arbitrary: d) (auto simp add: add_rows_Nil add_rows_Cons update_conv')

lemma add_rows_append: "add_rows d (xs @ ys) = add_rows (add_rows d xs) ys"
  by (simp add: add_rows_def)

lemma keys_add_rows: "fst ` set (add_rows d rows) = fst ` set d \<union> (\<lambda>row. row ! 0) ` set rows"
proof (induction rows arbitrary: d)
  case Nil
  show ?case by (simp add: add_rows_Nil)
next
  case (Cons row rows)
  have "fst ` set (add_rows d (row # rows)) =
        fst ` set (AList.update (row ! 0) (row ! 1, the (strptime_dmY (row ! 2))) d)
          \<union> (\<lambda>row. row ! 0) ` set rows"
    unfolding add_rows_Cons by (rule Cons.IH)
  also have "\<dots> = ({row ! 0} \<union> fst ` set d) \<union> (\<lambda>row. row ! 0) ` set rows"
    unfolding dom_update by (rule refl)
  finally show ?case by simp
qed

lemma update_fresh: "k \<notin> fst ` set al \<Longrightarrow> AList.update k v al = al @ [(k, v)]"
  by (induction al) auto

lemma add_rows_distinct:
  assumes "distinct (map (\<lambda>row. row ! 0) rows)" and "\<forall>row \<in> set rows. row ! 0 \<notin> fst ` set d"
  shows "add_rows d rows = d @ map row_entry rows"
  using assms
proof (induction rows arbitrary: d)
  case Nil
  show ?case by (simp add: add_rows_Nil)
next
  case (Cons row rows)
  let ?d = "d @ [row_entry row]"
  have fresh: "row ! 0 \<notin> fst ` set d" using Cons.prems(2) by simp
  have upd: "AList.update (row ! 0) (row ! 1, the (strptime_dmY (row ! 2))) d = ?d"
    using update_fresh [OF fresh] by (simp add: row_entry_def)
  have "distinct (map (\<lambda>row. row ! 0) rows)" using Cons.prems(1) by simp
  moreover have "\<forall>r \<in> set rows. r ! 0 \<notin> fst ` set ?d"
  proof
    fix r assume r: "r \<in> set rows"
    have "r ! 0 \<noteq> row ! 0" using Cons.prems(1) r by (simp add: image_iff) metis
    moreover have "r ! 0 \<notin> fst ` set d" using Cons.prems(2) r by simp
    moreover have "fst ` set ?d = fst ` set d \<union> {row ! 0}" by (simp add: row_entry_def)
    ultimately show "r ! 0 \<notin> fst ` set ?d" by blast
  qed
  ultimately have "add_rows ?d rows = ?d @ map row_entry rows"
    by (rule Cons.IH)
  moreover have "add_rows d (row # rows) = add_rows ?d rows"
    unfolding add_rows_Cons upd by (rule refl)
  ultimately show ?case by simp
qed

lemma row_log_all_valid:
  assumes "\<forall>row \<in> set rows. valid_row row"
  shows "row_log n rows = []"
  using assms by (induction rows arbitrary: n) (simp_all add: row_log_Nil row_log_Cons)

subsection \<open>The parser\<close>

text \<open>
  C1. When the reader yields a header and then N rows, each with three fields or more and
  a birthday that parses, and the identifiers of the rows are distinct, \<^verbatim>\<open>processData\<close>
  returns a dictionary of exactly N entries, the entry of each row in the order of the
  rows, and logs nothing.
\<close>

theorem processData_valid_rows:
  assumes "csv_reader (splitlines csvData) = (header # rows, None)"
    and "\<forall>row \<in> set rows. 3 \<le> length row \<and> strptime_dmY (row ! 2) \<noteq> None"
    and "distinct (map (\<lambda>row. row ! 0) rows)"
  shows "\<exists>table. processData csvData w = (Inr table, w)
           \<and> length table = length rows
           \<and> table = map row_entry rows"
proof -
  have len: "\<forall>row \<in> set rows. 3 \<le> length row" using assms(2) by simp
  have valid: "filter valid_row rows = rows"
    using assms(2) by (simp add: valid_row_def)
  have nolog: "row_log 1 rows = []"
    by (rule row_log_all_valid) (simp add: assms(2) valid_row_def)
  have "processData csvData w = process_rows 1 rows None [] w"
    by (rule processData_rows [OF assms(1)])
  also have "\<dots> = (Inr (add_rows [] (filter valid_row rows)), w\<lparr>errlog := errlog w @ row_log 1 rows\<rparr>)"
    by (rule process_rows_all [OF len])
  also have "\<dots> = (Inr (add_rows [] rows), w)"
    unfolding valid nolog by simp
  also have "add_rows [] rows = [] @ map row_entry rows"
    by (rule add_rows_distinct [OF assms(3)]) simp
  finally show ?thesis by simp
qed

text \<open>
  C2. When every row has three fields or more, \<^verbatim>\<open>processData\<close> returns the dictionary
  built from the rows whose birthday parses alone, so that a row whose birthday does not
  parse is left out and the rows after it are still read; its keys are the identifiers of
  the rows that parse. The log gains exactly one message for each row whose birthday does
  not parse, in order, made of the number of the row (counted from 1 after the header),
  its identifier and its birthday text.
\<close>

theorem processData_invalid_rows:
  assumes "csv_reader (splitlines csvData) = (header # rows, None)"
    and "\<forall>row \<in> set rows. 3 \<le> length row"
  shows "processData csvData w =
           (Inr (add_rows [] (filter valid_row rows)),
            w\<lparr>errlog := errlog w @
               map (\<lambda>(line_num, row). row_error_msg line_num (row ! 0) (row ! 2))
                 (filter (\<lambda>(line_num, row). strptime_dmY (row ! 2) = None) (enumerate 1 rows))\<rparr>)
         \<and> fst ` set (add_rows [] (filter valid_row rows))
             = (\<lambda>row. row ! 0) ` {row \<in> set rows. strptime_dmY (row ! 2) \<noteq> None}"
proof -
  have "processData csvData w = process_rows 1 rows None [] w"
    by (rule processData_rows [OF assms(1)])
  also have "\<dots> = (Inr (add_rows [] (filter valid_row rows)), w\<lparr>errlog := errlog w @ row_log 1 rows\<rparr>)"
    by (rule process_rows_all [OF assms(2)])
  finally have "processData csvData w =
      (Inr (add_rows [] (filter valid_row rows)), w\<lparr>errlog := errlog w @ row_log 1 rows\<rparr>)" .
  moreover have "fst ` set (add_rows [] (filter valid_row rows))
             = (\<lambda>row. row ! 0) ` {row \<in> set rows. strptime_dmY (row ! 2) \<noteq> None}"
    by (simp add: keys_add_rows valid_row_def)
  ultimately show ?thesis by (simp add: row_log_def valid_row_def)
qed

text \<open>
  C4. When several rows carry the same identifier, the dictionary binds the identifier to
  the name and birthday of the last of them whose birthday parses; when all of them parse,
  that is the last row with the identifier.
\<close>

theorem processData_duplicate_last_wins:
  assumes "csv_reader (splitlines csvData) = (header # rows, None)"
    and "\<forall>row \<in> set rows. 3 \<le> length row"
    and "rows = pre @ r # post"
    and "strptime_dmY (r ! 2) = Some b"
    and "\<forall>q \<in> set post. q ! 0 = r ! 0 \<longrightarrow> strptime_dmY (q ! 2) = None"
  shows "\<exists>table w'. processData csvData w = (Inr table, w')
           \<and> map_of table (r ! 0) = Some (r ! 1, b)"
proof -
  let ?t = "add_rows [] (filter valid_row rows)"
  have "processData csvData w = process_rows 1 rows None [] w"
    by (rule processData_rows [OF assms(1)])
  also have "\<dots> = (Inr ?t, w\<lparr>errlog := errlog w @ row_log 1 rows\<rparr>)"
    by (rule process_rows_all [OF assms(2)])
  finally have run: "processData csvData w = (Inr ?t, w\<lparr>errlog := errlog w @ row_log 1 rows\<rparr>)" .
  have v: "valid_row r" using assms(4) by (simp add: valid_row_def)
  have split: "filter valid_row rows = filter valid_row pre @ r # filter valid_row post"
    using v by (simp add: assms(3))
  have later: "\<forall>q \<in> set (filter valid_row post). q ! 0 \<noteq> r ! 0"
    using assms(5) by (auto simp add: valid_row_def)
  have "map_of ?t (r ! 0) =
        map_of (add_rows (add_rows [] (filter valid_row pre)) (r # filter valid_row post)) (r ! 0)"
    by (simp add: split add_rows_append)
  also have "\<dots> = map_of (AList.update (r ! 0) (r ! 1, the (strptime_dmY (r ! 2)))
                       (add_rows [] (filter valid_row pre))) (r ! 0)"
    unfolding add_rows_Cons by (rule map_of_add_rows_none [OF later])
  also have "\<dots> = Some (r ! 1, b)"
    by (simp add: update_conv' assms(4))
  finally show ?thesis using run by blast
qed

text \<open>
  C6. The first row with fewer than three fields ends \<^verbatim>\<open>processData\<close> with an
  \<^verbatim>\<open>IndexError\<close>: no dictionary is returned, the row itself is not logged, and the log
  holds only the messages of the rows before it.
\<close>

theorem processData_short_row:
  assumes "csv_reader (splitlines csvData) = (header # rows, err)"
    and "rows = pre @ r # post"
    and "\<forall>row \<in> set pre. 3 \<le> length row"
    and "length r < 3"
  shows "processData csvData w = (Inl IndexError, w\<lparr>errlog := errlog w @ row_log 1 pre\<rparr>)"
proof -
  have "processData csvData w = process_rows 1 (pre @ r # post) err [] w"
    using processData_rows [OF assms(1)] by (simp add: assms(2))
  also have "\<dots> = process_rows (1 + length pre) (r # post) err (add_rows [] (filter valid_row pre))
                     (w\<lparr>errlog := errlog w @ row_log 1 pre\<rparr>)"
    by (rule process_rows_append [OF assms(3)])
  also have "\<dots> = (Inl IndexError, w\<lparr>errlog := errlog w @ row_log 1 pre\<rparr>)"
    by (rule process_rows_short [OF assms(4)])
  finally show ?thesis .
qed

subsection \<open>Looking a person up\<close>

lemma process_rows_origin:
  assumes "process_rows n rows err d w = (Inr t, w')"
    and "map_of t k = Some (nm, b)"
  shows "map_of d k = Some (nm, b)
         \<or> (\<exists>row \<in> set rows. 3 \<le> length row \<and> row ! 0 = k \<and> row ! 1 = nm
                \<and> strptime_dmY (row ! 2) = Some b)"
  using assms
proof (induction rows arbitrary: n d w)
  case Nil
  then have "t = d" by (cases err) simp_all
  then show ?case using Nil.prems(2) by simp
next
  case (Cons row rows)
  have len: "3 \<le> length row"
  proof (rule ccontr)
    assume "\<not> 3 \<le> length row"
    then have "length row < 3" by simp
    then have "process_rows n (row # rows) err d w = (Inl IndexError, w)"
      by (rule process_rows_short)
    then show False using Cons.prems(1) by (simp del: process_rows.simps)
  qed
  show ?case
  proof (cases "strptime_dmY (row ! 2)")
    case None
    have "process_rows (Suc n) rows err d (logging_error (row_error_msg n (row ! 0) (row ! 2)) w) = (Inr t, w')"
      using Cons.prems(1) by (simp only: process_rows_step_invalid [OF len None])
    from Cons.IH [OF this Cons.prems(2)] show ?thesis by auto
  next
    case (Some bd)
    let ?d = "AList.update (row ! 0) (row ! 1, bd) d"
    have run: "process_rows (Suc n) rows err ?d w = (Inr t, w')"
      using Cons.prems(1) by (simp only: process_rows_step_valid [OF len Some])
    from Cons.IH [OF run Cons.prems(2)]
    consider "map_of ?d k = Some (nm, b)"
      | "\<exists>r \<in> set rows. 3 \<le> length r \<and> r ! 0 = k \<and> r ! 1 = nm \<and> strptime_dmY (r ! 2) = Some b"
      by blast
    then show ?thesis
    proof cases
      case 1
      show ?thesis
      proof (cases "k = row ! 0")
        case True
        then have "nm = row ! 1" and "b = bd" using 1 by (simp_all add: update_conv')
        then show ?thesis using True len Some by simp
      next
        case False
        then have "map_of d k = Some (nm, b)" using 1 by (simp add: update_conv')
        then show ?thesis by simp
      qed
    next
      case 2
      then show ?thesis by auto
    qed
  qed
qed

lemma processData_origin:
  assumes "processData csvData w = (Inr t, w')" and "map_of t k = Some (nm, b)"
  shows "\<exists>header rows err row.
           csv_reader (splitlines csvData) = (header # rows, err) \<and> row \<in> set rows
           \<and> 3 \<le> length row \<and> row ! 0 = k \<and> row ! 1 = nm \<and> strptime_dmY (row ! 2) = Some b"
proof -
  obtain rows err where r: "csv_reader (splitlines csvData) = (rows, err)"
    by (cases "csv_reader (splitlines csvData)") auto
  show ?thesis
  proof (cases rows)
    case Nil
    then show ?thesis using assms(1) r by (cases err) (simp_all add: processData_def)
  next
    case (Cons header rest)
    then have "process_rows 1 rest err [] w = (Inr t, w')"
      using assms(1) r by (simp add: processData_def)
    from process_rows_origin [OF this assms(2)]
    obtain row where "row \<in> set rest" "3 \<le> length row" "row ! 0 = k" "row ! 1 = nm"
      "strptime_dmY (row ! 2) = Some b" by auto
    then show ?thesis using r Cons by blast
  qed
qed

text \<open>
  C5, as the code has it. Every entry of a dictionary that \<^verbatim>\<open>processData\<close> returns comes
  from a row with that identifier and name whose birthday text is a day, a slash, a month,
  a slash and a year of four digits, and the birthday stored is the date these three
  texts write, whether or not the day and the month have a leading zero or space. Looking
  the identifier up prints \<^verbatim>\<open>strftime\<close> of that date. When the year is 1000 or later,
  what is printed has the form YYYY-MM-DD and reads back as the year, the month and the
  day of that same date.
\<close>

theorem displayPerson_iso_date:
  assumes "processData csvData w = (Inr table, w')"
    and "map_of table k = Some (name, b)"
  shows "(\<exists>header rows err row dt mt yt.
            csv_reader (splitlines csvData) = (header # rows, err) \<and> row \<in> set rows
            \<and> row ! 0 = k \<and> row ! 1 = name \<and> row ! 2 = dt @ ''/'' @ mt @ ''/'' @ yt
            \<and> list_all (\<lambda>c. is_digit c \<or> c = CHR '' '') dt
            \<and> list_all is_digit mt \<and> list_all is_digit yt \<and> length yt = 4
            \<and> nat_of_digits (filter is_digit dt) = day b
            \<and> nat_of_digits mt = month b
            \<and> nat_of_digits yt = year b)
         \<and> displayPerson k table w'' =
             print (''Person #'' @ k @ '' is '' @ name @ '' with a birthday of ''
                    @ strftime_Ymd b @ ''.'') w''
         \<and> (1000 \<le> year b \<longrightarrow> iso_Ymd (strftime_Ymd b) = Some (year b, month b, day b))"
proof -
  obtain hdr rows err row where rd: "csv_reader (splitlines csvData) = (hdr # rows, err)"
    and rw: "row \<in> set rows" "row ! 0 = k" "row ! 1 = name"
    and parsed: "strptime_dmY (row ! 2) = Some b"
    using processData_origin [OF assms] by blast
  obtain dt mt yt where parts: "row ! 2 = dt @ ''/'' @ mt @ ''/'' @ yt"
    "list_all (\<lambda>c. is_digit c \<or> c = CHR '' '') dt" "list_all is_digit mt"
    "list_all is_digit yt" "length yt = 4"
    "nat_of_digits (filter is_digit dt) = day b" "nat_of_digits mt = month b"
    "nat_of_digits yt = year b"
    using strptime_dmY_text [OF parsed] by blast
  have first: "\<exists>header rows err row dt mt yt.
            csv_reader (splitlines csvData) = (header # rows, err) \<and> row \<in> set rows
            \<and> row ! 0 = k \<and> row ! 1 = name \<and> row ! 2 = dt @ ''/'' @ mt @ ''/'' @ yt
            \<and> list_all (\<lambda>c. is_digit c \<or> c = CHR '' '') dt
            \<and> list_all is_digit mt \<and> list_all is_digit yt \<and> length yt = 4
            \<and> nat_of_digits (filter is_digit dt) = day b
            \<and> nat_of_digits mt = month b
            \<and> nat_of_digits yt = year b"
    using rd rw parts by blast
  have second: "displayPerson k table w'' =
             print (''Person #'' @ k @ '' is '' @ name @ '' with a birthday of ''
                    @ strftime_Ymd b @ ''.'') w''"
    by (simp add: displayPerson_def assms(2))
  have third: "iso_Ymd (strftime_Ymd b) = Some (year b, month b, day b)" if "1000 \<le> year b"
    using parsed that by (rule iso_Ymd_strptime)
  show ?thesis using first second third by blast
qed

subsection \<open>The interactive loop\<close>

lemma canonical_py_str:
  assumes "0 < n"
  shows "canonical_id (py_str n)"
proof -
  have "0 < nat n" using assms by simp
  then show ?thesis
    using assms by (simp add: canonical_id_def py_str_def str_nat_nonempty str_nat_digits str_nat_hd)
qed

lemma displayPerson_cong:
  assumes "map_of t1 k = map_of t2 k"
  shows "displayPerson k t1 w = displayPerson k t2 w"
  by (simp add: displayPerson_def assms)

lemma loop_step_canonical_only:
  assumes "\<And>k. canonical_id k \<Longrightarrow> map_of t1 k = map_of t2 k"
  shows "loop_step t1 s w = loop_step t2 s w"
proof (cases "py_int s")
  case None
  then show ?thesis by (simp add: loop_step_def)
next
  case (Some n)
  show ?thesis
  proof (cases "n \<le> 0")
    case True
    then show ?thesis by (simp add: loop_step_def Some)
  next
    case False
    then have "canonical_id (py_str n)" by (intro canonical_py_str) simp
    then have "displayPerson (py_str n) t1 w = displayPerson (py_str n) t2 w"
      by (intro displayPerson_cong assms)
    then show ?thesis using False by (simp add: loop_step_def Some)
  qed
qed

lemma main_loop_canonical_only:
  assumes "\<And>k. canonical_id k \<Longrightarrow> map_of t1 k = map_of t2 k"
  shows "main_loop t1 inputs w = main_loop t2 inputs w"
proof (induction inputs arbitrary: w)
  case Nil
  show ?case by simp
next
  case (Cons s inputs)
  have "loop_step t1 s (input w) = loop_step t2 s (input w)"
    by (rule loop_step_canonical_only) (rule assms)
  then show ?case by (simp add: Cons.IH split: prod.splits loop_state.splits)
qed


text \<open>
  C9. When the line read does not parse as an integer, the turn prints the message that
  asks for a valid integer, writes nothing to the error log, stays in \<open>Prompting\<close>, and
  the loop goes on with the next line.
\<close>

theorem loop_step_not_integer:
  assumes "py_int s = None"
  shows "loop_step t s w = (Prompting, print ''Please enter a valid integer ID.'' w)
         \<and> errlog (snd (loop_step t s w)) = errlog w
         \<and> main_loop t (s # rest) w =
             main_loop t rest (print ''Please enter a valid integer ID.'' (input w))"
  using assms by (simp add: loop_step_def print_def)

text \<open>
  C10. For a line that parses as a positive integer the key looked up is the decimal text
  of that integer: it is canonical (digits only, the first not 0), it writes that integer,
  and \<^verbatim>\<open>int\<close> reads the same integer back from it. A record whose identifier is not
  canonical is therefore never reached: the loop behaves the same, on every input, with
  the record in the dictionary and with the record removed.
\<close>

theorem lookup_key_canonical:
  "(py_int s = Some n \<and> 0 < n \<longrightarrow>
      canonical_id (py_str n)
      \<and> py_int (py_str n) = Some n
      \<and> nat_of_digits (py_str n) = nat n
      \<and> loop_step t s w = (Prompting, displayPerson (py_str n) t w))
   \<and> (\<not> canonical_id k \<longrightarrow>
        main_loop (AList.delete k t) inputs w = main_loop t inputs w)"
proof -
  have a: "canonical_id (py_str n)" if "0 < n"
    using that by (rule canonical_py_str)
  have b: "loop_step t s w = (Prompting, displayPerson (py_str n) t w)"
    if "py_int s = Some n" "0 < n"
    using that by (simp add: loop_step_def)
  have c: "main_loop (AList.delete k t) inputs w = main_loop t inputs w" if "\<not> canonical_id k"
  proof (rule main_loop_canonical_only)
    fix k' assume "canonical_id k'"
    then have "k' \<noteq> k" using that by blast
    then show "map_of (AList.delete k t) k' = map_of t k'" by simp
  qed
  have d: "py_int (py_str n) = Some n" if "py_int s = Some n" "0 < n"
    using that by (rule py_int_py_str)
  have e: "nat_of_digits (py_str n) = nat n" if "0 < n"
    using that by (simp add: py_str_def nat_of_digits_str_nat)
  show ?thesis using a b c d e by blast
qed

subsection \<open>Concrete runs\<close>

lemmas csv_eval = splitlines_def is_linebreak_def csv_reader_def parse_line_def parse_process_char_def
  parse_process_eol_def start_field_def parse_add_char_def parse_save_field_def parse_reset_def
  field_limit_def is_crnl_def quotechar_def delimiter_def

lemmas int_eval = py_int_def is_int_space_def is_digit_def nat_of_digits_def digit_val_def
  int_max_str_digits_def

lemmas date_eval = strptime_dmY_def re_dmY_def re_d_def re_m_def re_Y_def re_alt_def re_seq_def
  re_set_def re_digit_def make_date_def days_in_month_def is_leap_def int_eval

lemmas str_eval = py_str_def str_nat.simps digit_char_def

lemma example_reader:
  "csv_reader (splitlines ''id,name,birthday\<newline>1,Alice,15/06/1990\<newline>2,Bob,31/13/2000\<newline>'')
   = ([''id'', ''name'', ''birthday''] # [[''1'', ''Alice'', ''15/06/1990''], [''2'', ''Bob'', ''31/13/2000'']], None)"
  by (simp add: csv_eval)

lemma strptime_Alice: "strptime_dmY ''15/06/1990'' = Some \<lparr>year = 1990, month = 6, day = 15\<rparr>"
  by (simp add: date_eval)

lemma strptime_Bob: "strptime_dmY ''31/13/2000'' = None"
  by (simp add: date_eval)

lemma example_processData:
  "processData ''id,name,birthday\<newline>1,Alice,15/06/1990\<newline>2,Bob,31/13/2000\<newline>'' w
   = (Inr [(''1'', (''Alice'', \<lparr>year = 1990, month = 6, day = 15\<rparr>))],
      w\<lparr>errlog := errlog w @ [''Error processing line #2 for ID #2: 31/13/2000'']\<rparr>)"
  by (simp add: processData_def example_reader index_def strptime_Alice strptime_Bob
      row_error_msg_def logging_error_def str_eval)

lemma py_int_examples:
  "py_int ''1'' = Some 1" "py_int ''2'' = Some 2" "py_int ''0'' = Some 0"
  "py_int ''01'' = Some 1" "py_int '' 1 '' = Some 1" "py_int ''+1'' = Some 1"
  "py_int ''-5'' = Some (- 5)" "py_int ''abc'' = None"
  by (simp_all add: int_eval)

lemma py_str_examples: "py_str 1 = ''1''" "py_str 2 = ''2''"
  by (simp_all add: str_eval)

lemma strftime_Alice: "strftime_Ymd \<lparr>year = 1990, month = 6, day = 15\<rparr> = ''1990-06-15''"
  by (simp add: strftime_Ymd_def str_nat.simps pad2_def digit_char_def)

text \<open>
  C3. The end-to-end example: on the text of three lines with a valid row for Alice and a
  row for Bob whose month is 13, \<^verbatim>\<open>processData\<close> returns the dictionary with the entry
  of Alice alone and logs one message, for line 2 and ID 2. Run on that text with the
  inputs 1, 2 and 0, \<^verbatim>\<open>main\<close> prints the line for Alice, the line that finds no person
  with ID 2 and the exit message, and returns.
\<close>

theorem end_to_end_example:
  "processData ''id,name,birthday\<newline>1,Alice,15/06/1990\<newline>2,Bob,31/13/2000\<newline>''
       \<lparr>stdout = [], errlog = []\<rparr>
     = (Inr [(''1'', (''Alice'', \<lparr>year = 1990, month = 6, day = 15\<rparr>))],
        \<lparr>stdout = [], errlog = [''Error processing line #2 for ID #2: 31/13/2000'']\<rparr>)
   \<and> main url (Inr ''id,name,birthday\<newline>1,Alice,15/06/1990\<newline>2,Bob,31/13/2000\<newline>'')
         [''1'', ''2'', ''0''] \<lparr>stdout = [], errlog = []\<rparr>
     = (Inr (),
        \<lparr>stdout =
           [Line (''Running main with URL = '' @ url @ ''...''),
            Prompt ''Enter an ID to look up (or 0 to exit): '',
            Line ''Person #1 is Alice with a birthday of 1990-06-15.'',
            Prompt ''Enter an ID to look up (or 0 to exit): '',
            Line ''No person found with ID #2.'',
            Prompt ''Enter an ID to look up (or 0 to exit): '',
            Line ''Exiting the program.''],
         errlog = [''Error processing line #2 for ID #2: 31/13/2000'']\<rparr>)"
  by (simp add: main_def downloadData_def example_processData loop_step_def py_int_examples
      py_str_examples displayPerson_def strftime_Alice print_def input_def prompt_text_def)

text \<open>
  C7, as the code has it. On a text with no line \<^verbatim>\<open>next(reader)\<close> raises
  \<^verbatim>\<open>StopIteration\<close>, which \<^verbatim>\<open>processData\<close> lets through: it returns no dictionary, and
  \<^verbatim>\<open>main\<close> reports the failure and ends.
\<close>

theorem processData_no_lines:
  "processData [] w = (Inl StopIteration, w)
   \<and> main url (Inr []) inputs w =
       (Inr (), print ''Failed to process data: ''
                  (print (''Running main with URL = '' @ url @ ''...'') w))"
  by (simp add: processData_def csv_eval main_def downloadData_def)

text \<open>
  C7, as stated. The exception on the empty text is a \<^verbatim>\<open>StopIteration\<close>, not an error of
  a class named MalformedInputError.
\<close>

theorem processData_no_lines_not_MalformedInputError:
  "processData [] \<lparr>stdout = [], errlog = []\<rparr> = (Inl StopIteration, \<lparr>stdout = [], errlog = []\<rparr>)
   \<and> exc_class StopIteration \<noteq> ''MalformedInputError''"
  by (simp add: processData_def csv_eval)

lemma old_reader:
  "csv_reader (splitlines ''id,name,birthday\<newline>1,Old,01/01/0999\<newline>'')
   = ([''id'', ''name'', ''birthday''] # [[''1'', ''Old'', ''01/01/0999'']], None)"
  by (simp add: csv_eval)

lemma strptime_Old: "strptime_dmY ''01/01/0999'' = Some \<lparr>year = 999, month = 1, day = 1\<rparr>"
  by (simp add: date_eval)

text \<open>
  C5, as stated. The row with the birthday 01/01/0999 is stored, and looking it up prints
  999-01-01, which is not of the form YYYY-MM-DD.
\<close>

theorem displayPerson_year_below_1000:
  "processData ''id,name,birthday\<newline>1,Old,01/01/0999\<newline>'' \<lparr>stdout = [], errlog = []\<rparr>
     = (Inr [(''1'', (''Old'', \<lparr>year = 999, month = 1, day = 1\<rparr>))], \<lparr>stdout = [], errlog = []\<rparr>)
   \<and> displayPerson ''1'' [(''1'', (''Old'', \<lparr>year = 999, month = 1, day = 1\<rparr>))]
         \<lparr>stdout = [], errlog = []\<rparr>
     = print ''Person #1 is Old with a birthday of 999-01-01.'' \<lparr>stdout = [], errlog = []\<rparr>
   \<and> iso_Ymd ''999-01-01'' = None"
  by (simp add: processData_def old_reader index_def strptime_Old displayPerson_def
      strftime_Ymd_def str_nat.simps pad2_def digit_char_def iso_Ymd_def)

subsection \<open>Instances of the properties\<close>

text \<open>Each property with a hypothesis, applied to a concrete input that meets it.\<close>

lemma valid_reader:
  "csv_reader (splitlines ''id,name,birthday\<newline>1,Alice,15/06/1990\<newline>2,Bob,01/12/2000\<newline>'')
   = ([''id'', ''name'', ''birthday''] # [[''1'', ''Alice'', ''15/06/1990''], [''2'', ''Bob'', ''01/12/2000'']], None)"
  by (simp add: csv_eval)

lemma strptime_Bob_valid: "strptime_dmY ''01/12/2000'' = Some \<lparr>year = 2000, month = 12, day = 1\<rparr>"
  by (simp add: date_eval)

theorem processData_valid_rows_witness:
  "processData ''id,name,birthday\<newline>1,Alice,15/06/1990\<newline>2,Bob,01/12/2000\<newline>''
       \<lparr>stdout = [], errlog = []\<rparr>
     = (Inr [(''1'', (''Alice'', \<lparr>year = 1990, month = 6, day = 15\<rparr>)),
             (''2'', (''Bob'', \<lparr>year = 2000, month = 12, day = 1\<rparr>))],
        \<lparr>stdout = [], errlog = []\<rparr>)"
  using processData_valid_rows [OF valid_reader, of "\<lparr>stdout = [], errlog = []\<rparr>"]
  by (simp add: strptime_Alice strptime_Bob_valid row_entry_def)

theorem processData_invalid_rows_witness:
  "processData ''id,name,birthday\<newline>1,Alice,15/06/1990\<newline>2,Bob,31/13/2000\<newline>''
       \<lparr>stdout = [], errlog = []\<rparr>
     = (Inr (add_rows [] [[''1'', ''Alice'', ''15/06/1990'']]),
        \<lparr>stdout = [], errlog = [''Error processing line #2 for ID #2: 31/13/2000'']\<rparr>)
   \<and> add_rows [] [[''1'', ''Alice'', ''15/06/1990'']]
       = [(''1'', (''Alice'', \<lparr>year = 1990, month = 6, day = 15\<rparr>))]"
  using processData_invalid_rows [OF example_reader, of "\<lparr>stdout = [], errlog = []\<rparr>"]
  by (simp add: valid_row_def strptime_Alice strptime_Bob add_rows_def row_entry_def
      row_error_msg_def str_eval)

lemma duplicate_reader:
  "csv_reader (splitlines ''id,name,birthday\<newline>7,Ann,01/02/2003\<newline>7,Amy,04/05/2006\<newline>'')
   = ([''id'', ''name'', ''birthday''] # [[''7'', ''Ann'', ''01/02/2003''], [''7'', ''Amy'', ''04/05/2006'']], None)"
  by (simp add: csv_eval)

lemma strptime_Amy: "strptime_dmY ''04/05/2006'' = Some \<lparr>year = 2006, month = 5, day = 4\<rparr>"
  by (simp add: date_eval)

theorem processData_duplicate_last_wins_witness:
  "\<exists>table w'.
     processData ''id,name,birthday\<newline>7,Ann,01/02/2003\<newline>7,Amy,04/05/2006\<newline>''
       \<lparr>stdout = [], errlog = []\<rparr> = (Inr table, w')
     \<and> map_of table ''7'' = Some (''Amy'', \<lparr>year = 2006, month = 5, day = 4\<rparr>)"
proof -
  let ?ann = "[''7'', ''Ann'', ''01/02/2003'']"
  let ?amy = "[''7'', ''Amy'', ''04/05/2006'']"
  have h2: "\<forall>row \<in> set [?ann, ?amy]. 3 \<le> length row" by simp
  have h3: "[?ann, ?amy] = [?ann] @ ?amy # []" by simp
  have h4: "strptime_dmY (?amy ! 2) = Some \<lparr>year = 2006, month = 5, day = 4\<rparr>"
    by (simp add: strptime_Amy)
  have h5: "\<forall>q \<in> set []. q ! 0 = ?amy ! 0 \<longrightarrow> strptime_dmY (q ! 2) = None" by simp
  have "\<exists>table w'.
     processData ''id,name,birthday\<newline>7,Ann,01/02/2003\<newline>7,Amy,04/05/2006\<newline>''
       \<lparr>stdout = [], errlog = []\<rparr> = (Inr table, w')
     \<and> map_of table (?amy ! 0) = Some (?amy ! 1, \<lparr>year = 2006, month = 5, day = 4\<rparr>)"
    by (rule processData_duplicate_last_wins [OF duplicate_reader h2 h3 h4 h5])
  moreover have "?amy ! 0 = ''7''" and "?amy ! 1 = ''Amy''" by simp_all
  ultimately show ?thesis by (simp only:)
qed

theorem displayPerson_iso_date_witness:
  "displayPerson ''1'' [(''1'', (''Alice'', \<lparr>year = 1990, month = 6, day = 15\<rparr>))]
       \<lparr>stdout = [], errlog = []\<rparr>
     = print ''Person #1 is Alice with a birthday of 1990-06-15.'' \<lparr>stdout = [], errlog = []\<rparr>
   \<and> iso_Ymd ''1990-06-15'' = Some (1990, 6, 15)
   \<and> strptime_dmY ''15/6/1990'' = strptime_dmY ''15/06/1990''"
proof -
  let ?w = "\<lparr>stdout = [], errlog = []\<rparr>"
  let ?b = "\<lparr>year = 1990, month = 6, day = 15\<rparr>"
  have m: "map_of [(''1'', (''Alice'', ?b))] ''1'' = Some (''Alice'', ?b)" by simp
  note t = displayPerson_iso_date [OF example_processData [of ?w] m, of ?w]
  have "displayPerson ''1'' [(''1'', (''Alice'', ?b))] ?w =
          print (''Person #'' @ ''1'' @ '' is '' @ ''Alice'' @ '' with a birthday of ''
                 @ strftime_Ymd ?b @ ''.'') ?w"
    using t by (rule conjunct1 [OF conjunct2])
  moreover have "1000 \<le> year ?b \<longrightarrow> iso_Ymd (strftime_Ymd ?b) = Some (year ?b, month ?b, day ?b)"
    using t by (rule conjunct2 [OF conjunct2])
  moreover have "strptime_dmY ''15/6/1990'' = strptime_dmY ''15/06/1990''"
    by (simp add: date_eval)
  ultimately show ?thesis by (simp add: strftime_Alice)
qed

lemma short_reader:
  "csv_reader (splitlines ''id,name,birthday\<newline>2,Bob,31/13/2000\<newline>3,Cy\<newline>4,Di,01/12/2000\<newline>'')
   = ([''id'', ''name'', ''birthday''] #
      [[''2'', ''Bob'', ''31/13/2000''], [''3'', ''Cy''], [''4'', ''Di'', ''01/12/2000'']], None)"
  by (simp add: csv_eval)

theorem processData_short_row_witness:
  "processData ''id,name,birthday\<newline>2,Bob,31/13/2000\<newline>3,Cy\<newline>4,Di,01/12/2000\<newline>''
       \<lparr>stdout = [], errlog = []\<rparr>
     = (Inl IndexError,
        \<lparr>stdout = [], errlog = [''Error processing line #1 for ID #2: 31/13/2000'']\<rparr>)"
  using processData_short_row [OF short_reader, of "[[''2'', ''Bob'', ''31/13/2000'']]"
      "[''3'', ''Cy'']" "[[''4'', ''Di'', ''01/12/2000'']]" "\<lparr>stdout = [], errlog = []\<rparr>"]
  by (simp add: row_log_def valid_row_def strptime_Bob row_error_msg_def str_eval)


theorem loop_step_not_integer_witness:
  "py_int ''abc'' = None
   \<and> loop_step [] ''abc'' \<lparr>stdout = [], errlog = []\<rparr>
       = (Prompting, print ''Please enter a valid integer ID.'' \<lparr>stdout = [], errlog = []\<rparr>)
   \<and> main_loop [] [''abc'', ''0''] \<lparr>stdout = [], errlog = []\<rparr>
       = main_loop [] [''0''] (print ''Please enter a valid integer ID.'' (input \<lparr>stdout = [], errlog = []\<rparr>))"
  using loop_step_not_integer [of "''abc''" "[]" "\<lparr>stdout = [], errlog = []\<rparr>" "[''0'']"]
  by (simp add: py_int_examples)

theorem lookup_key_canonical_witness:
  "py_int ''01'' = Some 1 \<and> py_int '' 1 '' = Some 1 \<and> py_int ''+1'' = Some 1
   \<and> py_str 1 = ''1'' \<and> canonical_id ''1'' \<and> py_int ''1'' = Some 1
   \<and> py_int ''0042'' = Some 42 \<and> py_str 42 = ''42''
   \<and> \<not> canonical_id ''01'' \<and> \<not> canonical_id ''abc''
   \<and> loop_step [(''01'', (''Zed'', \<lparr>year = 1990, month = 6, day = 15\<rparr>))] ''01''
         \<lparr>stdout = [], errlog = []\<rparr>
       = (Prompting, print ''No person found with ID #1.'' \<lparr>stdout = [], errlog = []\<rparr>)
   \<and> main_loop [] [''01'', ''0''] \<lparr>stdout = [], errlog = []\<rparr>
       = main_loop [(''01'', (''Zed'', \<lparr>year = 1990, month = 6, day = 15\<rparr>))] [''01'', ''0'']
           \<lparr>stdout = [], errlog = []\<rparr>"
  using lookup_key_canonical [of "''01''" 1
      "[(''01'', (''Zed'', \<lparr>year = 1990, month = 6, day = 15\<rparr>))]"
      "\<lparr>stdout = [], errlog = []\<rparr>" "''01''" "[''01'', ''0'']"]
  by (simp add: py_int_examples py_str_examples canonical_id_def is_digit_def displayPerson_def
      int_eval str_eval)

end
